(* ===== verification/TickPrelude.thy ===== *)
theory TickPrelude
  imports Main "HOL-Library.Word" "HOL-Library.AList" "HOL-Library.Code_Target_Nat"
begin

text \<open>
  Shared vocabulary of the development: the type of Go's 64-bit integers, error results as
  sums with their bind, and the generic lemmas on sums, lists and association lists that the
  component theories use. The collections \<open>sbind_simps\<close> and \<open>alist_simps\<close> are the
  rewrite systems that evaluate fallible code and association-list updates.
\<close>

named_theorems sbind_simps \<open>rewriting of sequenced fallible computations\<close>
named_theorems alist_simps \<open>lookups in updated association lists\<close>

subsection \<open>Machine integers\<close>

text \<open>
  Go's \<open>int64\<close>, and \<open>int\<close> on the 64-bit platforms the program is built for. Arithmetic on the
  word wraps around as Go's does; every comparison of the source is a signed one and is written
  through \<^const>\<open>sint\<close>.
\<close>

type_synonym i64 = "64 word"

lemma sint_i64_range: "- (2 ^ 63) \<le> sint (x :: i64)" "sint (x :: i64) < 2 ^ 63"
  using sint_range_size [of x] by (simp_all add: word_size)

lemma sint_word_of_int_i64:
  "- (2 ^ 63) \<le> n \<Longrightarrow> n < 2 ^ 63 \<Longrightarrow> sint (word_of_int n :: i64) = n"
  by (simp add: sint_sbintrunc' signed_take_bit_int_eq_self)

lemma sint_add_i64:
  fixes a b :: i64
  assumes "- (2 ^ 63) \<le> sint a + sint b" "sint a + sint b < 2 ^ 63"
  shows "sint (a + b) = sint a + sint b"
proof -
  have "a + b = word_of_int (sint a + sint b)" by simp
  then show ?thesis using sint_word_of_int_i64 [OF assms] by metis
qed

lemma sint_inc_i64: "sint (x :: i64) < 2 ^ 63 - 1 \<Longrightarrow> sint (x + 1) = sint x + 1"
  using sint_add_i64 [of x 1] sint_i64_range(1) [of x] by simp

lemma i64_eqI: "sint (a :: i64) = sint b \<Longrightarrow> a = b"
  by (simp add: signed_word_eqI)

subsection \<open>Fallible computations\<close>

text \<open>Go's \<open>if err != nil { return ..., err }\<close>: stop at the first error.\<close>

definition sbind :: "'e + 'a \<Rightarrow> ('a \<Rightarrow> 'e + 'b) \<Rightarrow> 'e + 'b" where
  "sbind r f = (case r of Inl e \<Rightarrow> Inl e | Inr a \<Rightarrow> f a)"

lemma sbind_Inl [simp, sbind_simps]: "sbind (Inl e) f = Inl e"
  by (simp add: sbind_def)

lemma sbind_Inr [simp, sbind_simps]: "sbind (Inr a) f = f a"
  by (simp add: sbind_def)

lemma sbind_eq_Inr_iff [sbind_simps]: "sbind r f = Inr b \<longleftrightarrow> (\<exists>a. r = Inr a \<and> f a = Inr b)"
  by (cases r) simp_all

lemma sbind_eq_Inl_iff:
  "sbind r f = Inl e \<longleftrightarrow> r = Inl e \<or> (\<exists>a. r = Inr a \<and> f a = Inl e)"
  by (cases r) simp_all

text \<open>Wrapping an error, as \<open>fmt.Errorf("...: %w", err)\<close> does.\<close>

definition map_err :: "('e \<Rightarrow> 'f) \<Rightarrow> 'e + 'a \<Rightarrow> 'f + 'a" where
  "map_err w r = (case r of Inl e \<Rightarrow> Inl (w e) | Inr a \<Rightarrow> Inr a)"

lemma map_err_simps [simp, sbind_simps]:
  "map_err w (Inl e) = Inl (w e)" "map_err w (Inr a) = Inr a"
  by (simp_all add: map_err_def)

lemma map_err_eq_Inr_iff [simp, sbind_simps]: "map_err w r = Inr a \<longleftrightarrow> r = Inr a"
  by (cases r) simp_all

subsection \<open>Association lists\<close>

text \<open>Go's map read: the zero value of the element type when the key is absent.\<close>

definition field :: "(string \<times> string) list \<Rightarrow> string \<Rightarrow> string" where
  "field d k = (case map_of d k of None \<Rightarrow> [] | Some v \<Rightarrow> v)"

definition put_all :: "('k \<times> 'v) list \<Rightarrow> ('k \<times> 'v) list \<Rightarrow> ('k \<times> 'v) list" where
  "put_all fs h = fold (\<lambda>(k, v). AList.update k v) fs h"

lemma map_of_put_all [alist_simps]:
  "distinct (map fst fs) \<Longrightarrow> map_of (put_all fs h) = map_of h ++ map_of fs"
  unfolding put_all_def
proof (induction fs arbitrary: h)
  case (Cons kv fs)
  obtain k v where [simp]: "kv = (k, v)" by (cases kv)
  from Cons have "map_of (fold (\<lambda>(k, v). AList.update k v) fs (AList.update k v h))
      = map_of (AList.update k v h) ++ map_of fs"
    by simp
  also have "\<dots> = map_of h ++ map_of (kv # fs)"
  proof
    fix x
    show "(map_of (AList.update k v h) ++ map_of fs) x = (map_of h ++ map_of (kv # fs)) x"
    proof (cases "x = k")
      case True
      with Cons.prems have "map_of fs x = None" by (simp add: map_of_eq_None_iff)
      with True show ?thesis by (simp add: map_add_def AList.update_conv')
    next
      case False
      then show ?thesis by (simp add: map_add_def AList.update_conv' split: option.splits)
    qed
  qed
  finally show ?case by (simp only: fold_simps prod.case \<open>kv = (k, v)\<close>)
qed simp

lemma put_all_Nil_iff: "put_all fs h = [] \<longleftrightarrow> fs = [] \<and> h = []"
  unfolding put_all_def
proof (induction fs arbitrary: h)
  case (Cons kv fs)
  then show ?case by (cases kv; cases h) (auto split: if_splits)
qed simp

lemma distinct_put_all: "distinct (map fst h) \<Longrightarrow> distinct (map fst (put_all fs h))"
  unfolding put_all_def
  by (induction fs arbitrary: h) (auto simp: AList.distinct_update split: prod.splits)

end
