(* ===== verification/GoLib.thy ===== *)
theory GoLib
  imports TickPrelude
begin

text \<open>
  What the program uses of Go's standard library apart from URLs: decimal conversion
  (\<open>strconv\<close>), byte-string helpers (\<open>strings\<close>), \<open>float64\<close> on integral values (\<open>math\<close> and the
  conversions), \<open>time.Time\<close>. A Go string is a byte sequence, here \<^typ>\<open>string\<close>. The record
  \<open>golib\<close> collects what cannot be computed here and stays a parameter of the model: the Unicode
  case tables, \<open>strconv.Quote\<close>, the result of an out-of-range float conversion, which the
  language leaves to the implementation, and the JSON codec of bodies.
\<close>

subsection \<open>Bytes\<close>

abbreviation code :: "char \<Rightarrow> nat" where
  "code \<equiv> of_char"

definition is_digit :: "char \<Rightarrow> bool" where
  "is_digit c \<longleftrightarrow> 48 \<le> code c \<and> code c \<le> 57"

definition is_lower :: "char \<Rightarrow> bool" where
  "is_lower c \<longleftrightarrow> 97 \<le> code c \<and> code c \<le> 122"

definition is_upper :: "char \<Rightarrow> bool" where
  "is_upper c \<longleftrightarrow> 65 \<le> code c \<and> code c \<le> 90"

definition is_ascii :: "string \<Rightarrow> bool" where
  "is_ascii s \<longleftrightarrow> list_all (\<lambda>c. code c < 128) s"

definition ascii_upper :: "char \<Rightarrow> char" where
  "ascii_upper c = (if is_lower c then char_of (code c - 32) else c)"

definition ascii_lower :: "char \<Rightarrow> char" where
  "ascii_lower c = (if is_upper c then char_of (code c + 32) else c)"

definition has_prefix :: "string \<Rightarrow> string \<Rightarrow> bool" where
  "has_prefix p s \<longleftrightarrow> take (length p) s = p"

text \<open>
  \<open>strings.Cut(s, c)\<close> for a one-byte separator: the parts before and after its first occurrence;
  and the split at the last occurrence (\<open>strings.LastIndex\<close>), \<^const>\<open>None\<close> for -1.
\<close>

definition cut :: "char \<Rightarrow> string \<Rightarrow> string \<times> string" where
  "cut c s = (takeWhile (\<lambda>x. x \<noteq> c) s, drop 1 (dropWhile (\<lambda>x. x \<noteq> c) s))"

definition last_split :: "char \<Rightarrow> string \<Rightarrow> (string \<times> string) option" where
  "last_split c s =
     (if c \<in> set s
      then Some (rev (drop 1 (dropWhile (\<lambda>x. x \<noteq> c) (rev s))), rev (takeWhile (\<lambda>x. x \<noteq> c) (rev s)))
      else None)"

text \<open>
  \<open>strings.EqualFold(s, t)\<close> for an ASCII \<open>t\<close> without the letters k and s, the only ones that fold to
  a rune outside ASCII: the program's one call has \<open>t = "bearer"\<close>.
\<close>

definition EqualFold :: "string \<Rightarrow> string \<Rightarrow> bool" where
  "EqualFold s t \<longleftrightarrow> map ascii_lower s = map ascii_lower t"

subsection \<open>Decimal conversion\<close>

datatype num_error = ErrSyntax | ErrRange

fun dec :: "nat \<Rightarrow> string" where
  "dec n = (if n < 10 then [char_of (48 + n)] else dec (n div 10) @ [char_of (48 + n mod 10)])"

declare dec.simps [simp del]

text \<open>\<open>strconv.FormatInt(x, 10)\<close> and \<open>strconv.Itoa(x)\<close>.\<close>

definition FormatInt :: "i64 \<Rightarrow> string" where
  "FormatInt x = (if sint x < 0 then CHR ''-'' # dec (nat (- sint x)) else dec (nat (sint x)))"

text \<open>
  The digit loop of \<open>strconv.ParseUint(s, 10, 64)\<close>: the first non-digit is a syntax error, the
  first overflow a range error, whichever comes first.
\<close>

fun parse_uint_loop :: "nat \<Rightarrow> string \<Rightarrow> num_error + nat" where
  "parse_uint_loop n [] = Inr n"
| "parse_uint_loop n (c # cs) =
     (if \<not> is_digit c then Inl ErrSyntax
      else if n \<ge> (2 ^ 64 - 1) div 10 + 1 then Inl ErrRange
      else let n1 = n * 10 + (code c - 48)
           in if n1 > 2 ^ 64 - 1 then Inl ErrRange else parse_uint_loop n1 cs)"

definition ParseUint :: "string \<Rightarrow> num_error + nat" where
  "ParseUint s = (if s = [] then Inl ErrSyntax else parse_uint_loop 0 s)"

text \<open>\<open>strconv.ParseInt(s, 10, 64)\<close>.\<close>

definition ParseInt :: "string \<Rightarrow> num_error + i64" where
  "ParseInt s =
     (case s of
        [] \<Rightarrow> Inl ErrSyntax
      | c # cs \<Rightarrow>
          let neg = (c = CHR ''-'');
              body = (if c = CHR ''+'' \<or> c = CHR ''-'' then cs else s)
          in sbind (ParseUint body) (\<lambda>un.
               if \<not> neg \<and> un \<ge> 2 ^ 63 then Inl ErrRange
               else if neg \<and> un > 2 ^ 63 then Inl ErrRange
               else Inr (if neg then - word_of_nat un else word_of_nat un)))"

text \<open>\<open>strconv.Atoi\<close>: a fast path for up to 18 bytes, the general parser otherwise.\<close>

fun atoi_loop :: "int \<Rightarrow> string \<Rightarrow> num_error + int" where
  "atoi_loop n [] = Inr n"
| "atoi_loop n (c # cs) =
     (if \<not> is_digit c then Inl ErrSyntax else atoi_loop (n * 10 + int (code c - 48)) cs)"

definition Atoi :: "string \<Rightarrow> num_error + i64" where
  "Atoi s =
     (if 0 < length s \<and> length s < 19
      then let signed = (hd s = CHR ''-'' \<or> hd s = CHR ''+'');
               t = (if signed then tl s else s)
           in if t = [] then Inl ErrSyntax
              else sbind (atoi_loop 0 t)
                     (\<lambda>n. Inr (word_of_int (if hd s = CHR ''-'' then - n else n)))
      else ParseInt s)"

text \<open>The value of a digit string, most significant digit first.\<close>

fun dec_val :: "nat \<Rightarrow> string \<Rightarrow> nat" where
  "dec_val n [] = n"
| "dec_val n (c # cs) = dec_val (n * 10 + (code c - 48)) cs"

lemma dec_val_append: "dec_val n (xs @ ys) = dec_val (dec_val n xs) ys"
  by (induction n xs rule: dec_val.induct) simp_all

lemma dec_val_ge: "n \<le> dec_val n cs"
proof (induction n cs rule: dec_val.induct)
  case (2 n c cs)
  then show ?case by (simp add: order_trans [OF _ 2])
qed simp

lemma code_digit_char: "(d::nat) < 10 \<Longrightarrow> code (char_of (48 + d)) = 48 + d"
  by simp

lemma is_digit_char: "(d::nat) < 10 \<Longrightarrow> is_digit (char_of (48 + d))"
  by (simp add: is_digit_def)

lemma dec_digits: "\<forall>c\<in>set (dec n). is_digit c"
proof (induction n rule: dec.induct)
  case (1 n)
  then show ?case by (subst dec.simps) (auto simp: is_digit_char)
qed

lemma dec_not_Nil [simp]: "dec n \<noteq> []"
  by (subst dec.simps) simp

lemma dec_val_dec: "dec_val 0 (dec n) = n"
proof (induction n rule: dec.induct)
  case (1 n)
  show ?case
  proof (cases "n < 10")
    case True
    then show ?thesis by (subst dec.simps) simp
  next
    case False
    with 1 show ?thesis by (subst dec.simps) (simp add: dec_val_append)
  qed
qed

text \<open>On digits the bounded loop computes the value or reports the overflow.\<close>

lemma parse_uint_loop_digits:
  assumes "\<forall>c\<in>set cs. is_digit c" and "n < 2 ^ 64"
  shows "parse_uint_loop n cs =
    (if dec_val n cs < 2 ^ 64 then Inr (dec_val n cs) else Inl ErrRange)"
  using assms
proof (induction n cs rule: parse_uint_loop.induct)
  case (2 n c cs)
  have ge: "n * 10 + (code c - 48) \<le> dec_val n (c # cs)"
    by (simp add: dec_val_ge)
  show ?case
  proof (cases "n * 10 + (code c - 48) < 2 ^ 64")
    case True
    then have "n < (2 ^ 64 - 1) div 10 + 1" by simp
    with 2 True show ?thesis by (simp add: Let_def)
  next
    case False
    with ge have big: "\<not> dec_val n (c # cs) < 2 ^ 64" by linarith
    from 2(2) have "48 \<le> code c" by (simp add: is_digit_def)
    with False have "2 ^ 64 - 1 < n * 10 + code c - 48" by simp
    with 2 big show ?thesis by (simp add: Let_def)
  qed
qed simp

lemma ParseUint_dec: "n < 2 ^ 64 \<Longrightarrow> ParseUint (dec n) = Inr n"
  by (simp add: ParseUint_def parse_uint_loop_digits dec_digits dec_val_dec)

lemma dec_hd_not_sign:
  "dec n = c # cs \<Longrightarrow> c \<noteq> CHR ''+'' \<and> c \<noteq> CHR ''-''"
  using dec_digits [of n] by (auto simp: is_digit_def)

lemma ParseInt_dec: "n < 2 ^ 63 \<Longrightarrow> ParseInt (dec n) = Inr (word_of_nat n)"
  using ParseUint_dec [of n]
  by (cases "dec n") (auto simp: ParseInt_def dest: dec_hd_not_sign)

lemma ParseInt_neg_dec: "n \<le> 2 ^ 63 \<Longrightarrow> ParseInt (CHR ''-'' # dec n) = Inr (- word_of_nat n)"
  using ParseUint_dec [of n] by (simp add: ParseInt_def)

lemma ParseInt_FormatInt [simp]: "ParseInt (FormatInt x) = Inr x"
proof (cases "sint x < 0")
  case True
  have "nat (- sint x) \<le> 2 ^ 63" using sint_i64_range(1) [of x] by simp
  with True show ?thesis
    by (simp add: FormatInt_def ParseInt_neg_dec)
next
  case False
  have "nat (sint x) < 2 ^ 63" using sint_i64_range(2) [of x] by simp
  with False show ?thesis
    by (simp add: FormatInt_def ParseInt_dec)
qed

lemma FormatInt_not_Nil [simp]: "FormatInt x \<noteq> []"
  by (simp add: FormatInt_def)

text \<open>The fast path of \<^const>\<open>Atoi\<close> agrees with the general parser.\<close>

lemma atoi_loop_value:
  "atoi_loop (int n) cs =
    (if \<forall>c\<in>set cs. is_digit c then Inr (int (dec_val n cs)) else Inl ErrSyntax)"
proof (induction cs arbitrary: n)
  case (Cons c cs)
  have eq: "int n * 10 + int (code c - 48) = int (n * 10 + (code c - 48))" by simp
  show ?case by (simp add: eq Cons del: of_nat_add of_nat_mult)
qed simp

lemma parse_uint_loop_short:
  assumes "n < 10 ^ k" and "k + length cs \<le> 18"
  shows "parse_uint_loop n cs =
    (if \<forall>c\<in>set cs. is_digit c then Inr (dec_val n cs) else Inl ErrSyntax)"
  using assms
proof (induction cs arbitrary: n k)
  case (Cons c cs)
  show ?case
  proof (cases "is_digit c")
    case True
    then have "code c - 48 \<le> 9" by (simp add: is_digit_def le_diff_conv)
    with Cons.prems(1) have step: "n * 10 + (code c - 48) < 10 ^ Suc k" by simp
    have "(10::nat) ^ Suc k \<le> 10 ^ 18"
      using Cons.prems(2) by (intro power_increasing) simp_all
    with step have "n * 10 + (code c - 48) < 10 ^ 18" by linarith
    then have "\<not> n \<ge> (2 ^ 64 - 1) div 10 + 1" "\<not> n * 10 + (code c - 48) > 2 ^ 64 - 1"
      by simp_all
    with True Cons.IH [OF step] Cons.prems(2) show ?thesis by (simp add: Let_def)
  qed simp
qed simp

lemma dec_val_short:
  assumes "n < 10 ^ k" and "\<forall>c\<in>set cs. is_digit c"
  shows "dec_val n cs < 10 ^ (k + length cs)"
  using assms
proof (induction cs arbitrary: n k)
  case (Cons c cs)
  then have "n * 10 + (code c - 48) < 10 ^ Suc k" by (auto simp: is_digit_def)
  from Cons.IH [OF this] Cons.prems(2) show ?case by simp
qed simp

lemma ParseUint_short:
  assumes "t \<noteq> []" and "length t \<le> 18"
  shows "sbind (ParseUint t) f =
    (if \<forall>c\<in>set t. is_digit c then f (dec_val 0 t) else Inl ErrSyntax)"
  using assms parse_uint_loop_short [of 0 0 t] by (simp add: ParseUint_def)

lemma atoi_loop_short:
  "sbind (atoi_loop 0 t) f =
    (if \<forall>c\<in>set t. is_digit c then f (int (dec_val 0 t)) else Inl ErrSyntax)"
  using atoi_loop_value [of 0 t] by simp

lemma dec_val_lt_i64:
  assumes "\<forall>c\<in>set t. is_digit c" and "length t \<le> 18"
  shows "dec_val 0 t < 2 ^ 63"
proof -
  have "dec_val 0 t < 10 ^ length t" using dec_val_short [of 0 0 t] assms(1) by simp
  also have "(10::nat) ^ length t \<le> 10 ^ 18" using assms(2) by (intro power_increasing) simp_all
  also have "(10::nat) ^ 18 < 2 ^ 63" by simp
  finally show ?thesis .
qed

lemma Atoi_eq_ParseInt: "Atoi s = ParseInt s"
proof (cases "0 < length s \<and> length s < 19")
  case True
  then obtain c cs where s: "s = c # cs" by (cases s) auto
  define t where "t = (if c = CHR ''+'' \<or> c = CHR ''-'' then cs else s)"
  have len: "length t \<le> 18" using True s by (auto simp: t_def)
  show ?thesis
  proof (cases "t = []")
    case True
    then show ?thesis
      using s by (auto simp: t_def Atoi_def ParseInt_def ParseUint_def split: if_splits)
  next
    case False
    have "Atoi s = sbind (atoi_loop 0 t)
        (\<lambda>n. Inr (word_of_int (if c = CHR ''-'' then - n else n)))"
      using True False s by (auto simp: Atoi_def t_def)
    moreover have "ParseInt s = sbind (ParseUint t) (\<lambda>un.
        if c \<noteq> CHR ''-'' \<and> un \<ge> 2 ^ 63 then Inl ErrRange
        else if c = CHR ''-'' \<and> un > 2 ^ 63 then Inl ErrRange
        else Inr (if c = CHR ''-'' then - word_of_nat un else word_of_nat un))"
      using s by (simp add: ParseInt_def t_def Let_def)
    moreover have "\<not> dec_val 0 t \<ge> 2 ^ 63" "\<not> dec_val 0 t > 2 ^ 63"
      if "\<forall>c\<in>set t. is_digit c"
      using dec_val_lt_i64 [OF that len] by simp_all
    ultimately show ?thesis
      by (cases "\<forall>c\<in>set t. is_digit c")
        (simp_all add: atoi_loop_short ParseUint_short [OF False len])
  qed
next
  case False
  then show ?thesis by (simp only: Atoi_def if_False)
qed

lemma Atoi_FormatInt [simp]: "Atoi (FormatInt x) = Inr x"
  by (simp add: Atoi_eq_ParseInt)

subsection \<open>Floating point on integral values\<close>

text \<open>
  Every \<open>float64\<close> of the program is integral or not finite: a converted \<open>int64\<close>, a power of two,
  their product, a ZSET score. Rounding is to 53 significant bits, ties to even. The sign of
  zero is not observable in what the program does with these values.
\<close>

datatype f64 = Fin int | PInf | NInf | NaN

fun excess_bits :: "nat \<Rightarrow> nat" where
  "excess_bits n = (if n < 2 ^ 53 then 0 else Suc (excess_bits (n div 2)))"

declare excess_bits.simps [simp del]

definition round53 :: "nat \<Rightarrow> nat" where
  "round53 n =
     (let s = excess_bits n; q = n div 2 ^ s; r = n mod 2 ^ s
      in if s = 0 then n
         else if 2 * r > 2 ^ s \<or> (2 * r = 2 ^ s \<and> odd q) then (q + 1) * 2 ^ s
         else q * 2 ^ s)"

definition round_int :: "int \<Rightarrow> int" where
  "round_int x = (if x < 0 then - int (round53 (nat (- x))) else int (round53 (nat x)))"

definition f64_of_int :: "int \<Rightarrow> f64" where
  "f64_of_int x =
     (let r = round_int x
      in if r \<ge> 2 ^ 1024 then PInf else if r \<le> - (2 ^ 1024) then NInf else Fin r)"

fun f64_mul :: "f64 \<Rightarrow> f64 \<Rightarrow> f64" where
  "f64_mul NaN _ = NaN"
| "f64_mul _ NaN = NaN"
| "f64_mul (Fin a) (Fin b) = f64_of_int (a * b)"
| "f64_mul (Fin a) PInf = (if a = 0 then NaN else if a > 0 then PInf else NInf)"
| "f64_mul (Fin a) NInf = (if a = 0 then NaN else if a > 0 then NInf else PInf)"
| "f64_mul PInf (Fin b) = (if b = 0 then NaN else if b > 0 then PInf else NInf)"
| "f64_mul NInf (Fin b) = (if b = 0 then NaN else if b > 0 then NInf else PInf)"
| "f64_mul PInf PInf = PInf"
| "f64_mul PInf NInf = NInf"
| "f64_mul NInf PInf = NInf"
| "f64_mul NInf NInf = PInf"

text \<open>The comparison \<open>x > c\<close> with a finite \<open>c\<close>; false for NaN.\<close>

fun f64_gt :: "f64 \<Rightarrow> int \<Rightarrow> bool" where
  "f64_gt (Fin a) c = (a > c)"
| "f64_gt PInf c = True"
| "f64_gt NInf c = False"
| "f64_gt NaN c = False"

text \<open>\<open>math.Pow(2, k)\<close> for integral \<open>k \<ge> 0\<close>: exact, infinite from \<open>2 ^ 1024\<close> on.\<close>

definition Pow2 :: "int \<Rightarrow> f64" where
  "Pow2 k = (if k \<le> 1023 then Fin (2 ^ nat k) else PInf)"

lemma round53_small: "n < 2 ^ 53 \<Longrightarrow> round53 n = n"
  by (simp add: round53_def excess_bits.simps [of n])

lemma round_int_small: "\<bar>x\<bar> < 2 ^ 53 \<Longrightarrow> round_int x = x"
  by (auto simp: round_int_def round53_small)

lemma excess_bits_ge:
  "2 ^ 53 \<le> n \<Longrightarrow> 1 \<le> excess_bits n \<and> 2 ^ 52 \<le> n div 2 ^ excess_bits n"
proof (induction n rule: excess_bits.induct)
  case (1 n)
  have e: "excess_bits n = Suc (excess_bits (n div 2))"
    using "1.prems" by (subst excess_bits.simps) simp
  show ?case
  proof (cases "n div 2 < 2 ^ 53")
    case True
    then have "excess_bits (n div 2) = 0" by (subst excess_bits.simps) simp
    with e "1.prems" show ?thesis by simp
  next
    case False
    with 1 have "2 ^ 52 \<le> n div 2 div 2 ^ excess_bits (n div 2)" by simp
    with e show ?thesis by (simp add: div_mult2_eq)
  qed
qed

lemma round53_ge: "2 ^ 53 \<le> n \<Longrightarrow> 2 ^ 53 \<le> round53 n"
proof -
  assume n: "2 ^ 53 \<le> n"
  define s where "s = excess_bits n"
  define q where "q = n div 2 ^ s"
  have sq: "1 \<le> s" "2 ^ 52 \<le> q" using excess_bits_ge [OF n] by (simp_all add: s_def q_def)
  have "(2::nat) ^ 53 = 2 ^ 52 * 2 ^ 1" by simp
  also have "\<dots> \<le> q * 2 ^ s"
    using sq by (intro mult_le_mono power_increasing) simp_all
  finally have "2 ^ 53 \<le> q * 2 ^ s" .
  then show ?thesis using sq
    by (auto simp: round53_def Let_def s_def [symmetric] q_def [symmetric])
qed

lemma round_int_ge: "2 ^ 53 \<le> x \<Longrightarrow> 2 ^ 53 \<le> round_int x"
  using round53_ge [of "nat x"] by (simp add: round_int_def nat_le_iff le_nat_iff)

lemma f64_of_int_small: "\<bar>x\<bar> < 2 ^ 53 \<Longrightarrow> f64_of_int x = Fin x"
proof -
  assume x: "\<bar>x\<bar> < 2 ^ 53"
  define M :: int where "M = 2 ^ 1024"
  have "(2::int) ^ 53 \<le> M" unfolding M_def by (intro power_increasing) simp_all
  with x have "\<not> M \<le> x" "\<not> x \<le> - M" by linarith+
  then show ?thesis unfolding f64_of_int_def M_def [symmetric] by (simp add: round_int_small [OF x])
qed

text \<open>
  A float to \<open>int64\<close> conversion truncates; outside the range the language leaves the result to the
  implementation, the argument \<open>undef\<close>.
\<close>

fun f64_to_i64 :: "i64 \<Rightarrow> f64 \<Rightarrow> i64" where
  "f64_to_i64 undef (Fin a) = (if - (2 ^ 63) \<le> a \<and> a < 2 ^ 63 then word_of_int a else undef)"
| "f64_to_i64 undef _ = undef"

subsection \<open>Time\<close>

text \<open>
  A \<open>time.Time\<close> is its Unix second and the nanoseconds within it; the zero time is midnight,
  January 1 of year 1.
\<close>

record go_time =
  t_unix :: i64
  t_nsec :: nat

definition IsZero :: "go_time \<Rightarrow> bool" where
  "IsZero t \<longleftrightarrow> sint (t_unix t) = - 62135596800 \<and> t_nsec t = 0"

definition UnixMilli :: "go_time \<Rightarrow> i64" where
  "UnixMilli t = t_unix t * 1000 + word_of_nat (t_nsec t div 1000000)"

subsection \<open>Header names\<close>

text \<open>
  \<open>textproto.CanonicalMIMEHeaderKey\<close>: capital letters at the start and after each hyphen, small
  ones elsewhere, unless the name holds a byte that no header name may hold.
\<close>

definition is_token_char :: "char \<Rightarrow> bool" where
  "is_token_char c \<longleftrightarrow>
     is_digit c \<or> is_lower c \<or> is_upper c \<or> c \<in> set ''!#$%&*+-.^_`|~'' \<or> code c = 39"

fun canon_loop :: "bool \<Rightarrow> string \<Rightarrow> string" where
  "canon_loop upper [] = []"
| "canon_loop upper (c # cs) =
     (let c' = (if upper then ascii_upper c else ascii_lower c)
      in c' # canon_loop (c' = CHR ''-'') cs)"

definition CanonicalKey :: "string \<Rightarrow> string" where
  "CanonicalKey s = (if list_all is_token_char s then canon_loop True s else s)"

subsection \<open>JSON values and the library parameters\<close>

text \<open>
  A decoded JSON value, with numbers kept as an abstract code of the \<open>float64\<close>. A nil map is
  \<^const>\<open>None\<close>, which \<open>encoding/json\<close> and the program tell apart from an empty one.
\<close>

datatype json =
    JNull
  | JBool bool
  | JNum int
  | JStr string
  | JArr "json list"
  | JObj "string \<Rightarrow> json option"

type_synonym json_obj = "string \<rightharpoonup> json"

type_synonym header_map = "string \<rightharpoonup> string"

record golib =
  uni_upper :: "string \<Rightarrow> string"
  uni_lower :: "string \<Rightarrow> string"
  quote :: "string \<Rightarrow> string"
  f2i_undef :: i64
  marshal_body :: "json_obj \<Rightarrow> string + string"
  unmarshal_body :: "string \<Rightarrow> string + json_obj option"

text \<open>\<open>strings.ToUpper\<close> and \<open>strings.ToLower\<close>: a byte loop on ASCII, the case tables otherwise.\<close>

definition ToUpper :: "golib \<Rightarrow> string \<Rightarrow> string" where
  "ToUpper lib s = (if is_ascii s then map ascii_upper s else uni_upper lib s)"

definition ToLower :: "golib \<Rightarrow> string \<Rightarrow> string" where
  "ToLower lib s = (if is_ascii s then map ascii_lower s else uni_lower lib s)"

text \<open>
  An instance of the parameters for concrete runs: ASCII-only case tables, quotes without
  escapes, the conversion result of amd64, and a codec that knows empty objects only.
\<close>

definition plain_lib :: golib where
  "plain_lib = \<lparr>uni_upper = id, uni_lower = id, quote = (\<lambda>s. [CHR 34] @ s @ [CHR 34]),
     f2i_undef = - (2 ^ 63),
     marshal_body = (\<lambda>_. Inr ''{}''), unmarshal_body = (\<lambda>_. Inr (Some Map.empty))\<rparr>"

end
