(* ===== verification/GoUrl.thy ===== *)
theory GoUrl
  imports GoLib
begin

text \<open>
  What the program uses of \<open>net/url\<close> (Go 1.22): \<open>url.Parse\<close> up to the scheme, the host and every
  error it can return, and \<open>(*URL).Hostname\<close>. Paths, queries, user information and fragments are
  checked as the library checks them but their decoded values, which the program never reads,
  are dropped.
\<close>

datatype encoding = encodePath | encodeHost | encodeZone | encodeUserPassword | encodeFragment

datatype url_error =
    ControlChar
  | MissingScheme
  | FirstSegmentColon
  | MissingBracket
  | InvalidPort string
  | InvalidEscape string
  | InvalidHostChar string
  | InvalidUserinfo

record url =
  Scheme :: string
  Host :: string

subsection \<open>Escapes\<close>

definition ishex :: "char \<Rightarrow> bool" where
  "ishex c \<longleftrightarrow> is_digit c \<or> (97 \<le> code c \<and> code c \<le> 102) \<or> (65 \<le> code c \<and> code c \<le> 70)"

definition unhex :: "char \<Rightarrow> nat" where
  "unhex c = (if is_digit c then code c - 48 else if 97 \<le> code c then code c - 87 else code c - 55)"

definition is_alnum :: "char \<Rightarrow> bool" where
  "is_alnum c \<longleftrightarrow> is_digit c \<or> is_lower c \<or> is_upper c"

text \<open>\<open>shouldEscape(c, mode)\<close> for the two modes in which \<open>unescape\<close> asks.\<close>

definition shouldEscapeHost :: "char \<Rightarrow> bool" where
  "shouldEscapeHost c \<longleftrightarrow>
     \<not> (is_alnum c \<or> c \<in> set ''!$&()*+,;=:[]<>-_.~'' \<or> code c = 39 \<or> code c = 34)"

fun unescape :: "encoding \<Rightarrow> string \<Rightarrow> url_error + string" where
  "unescape mode [] = Inr []"
| "unescape mode (c # cs) =
     (if c = CHR ''%'' then
        (case cs of
           a # b # rest \<Rightarrow>
             if \<not> ishex a \<or> \<not> ishex b then Inl (InvalidEscape [c, a, b])
             else if mode = encodeHost \<and> unhex a < 8 \<and> [a, b] \<noteq> ''25'' then Inl (InvalidEscape [c, a, b])
             else if mode = encodeZone \<and> [a, b] \<noteq> ''25'' \<and> 16 * unhex a + unhex b \<noteq> 32
                     \<and> shouldEscapeHost (char_of (16 * unhex a + unhex b))
               then Inl (InvalidEscape [c, a, b])
             else sbind (unescape mode rest) (\<lambda>t. Inr (char_of (16 * unhex a + unhex b) # t))
         | _ \<Rightarrow> Inl (InvalidEscape (c # cs)))
      else if (mode = encodeHost \<or> mode = encodeZone) \<and> code c < 128 \<and> shouldEscapeHost c
        then Inl (InvalidHostChar [c])
      else sbind (unescape mode cs) (\<lambda>t. Inr (c # t)))"

subsection \<open>The parts of a URL\<close>

text \<open>\<open>getScheme\<close>: \<open>n\<close> counts the bytes already read, which are in \<open>acc\<close>, last first.\<close>

fun get_scheme_loop :: "string \<Rightarrow> string \<Rightarrow> string \<Rightarrow> url_error + string \<times> string" where
  "get_scheme_loop raw acc [] = Inr ([], raw)"
| "get_scheme_loop raw acc (c # cs) =
     (if is_lower c \<or> is_upper c then get_scheme_loop raw (c # acc) cs
      else if is_digit c \<or> c = CHR ''+'' \<or> c = CHR ''-'' \<or> c = CHR ''.'' then
        (if acc = [] then Inr ([], raw) else get_scheme_loop raw (c # acc) cs)
      else if c = CHR '':'' then
        (if acc = [] then Inl MissingScheme else Inr (rev acc, cs))
      else Inr ([], raw))"

definition getScheme :: "string \<Rightarrow> url_error + string \<times> string" where
  "getScheme raw = get_scheme_loop raw [] raw"

definition validOptionalPort :: "string \<Rightarrow> bool" where
  "validOptionalPort port =
     (case port of [] \<Rightarrow> True | c # cs \<Rightarrow> c = CHR '':'' \<and> list_all is_digit cs)"

text \<open>The position of \<open>%25\<close>, as the split there.\<close>

fun split_zone :: "string \<Rightarrow> (string \<times> string) option" where
  "split_zone [] = None"
| "split_zone (c # cs) =
     (if has_prefix ''%25'' (c # cs) then Some ([], c # cs)
      else map_option (\<lambda>(a, b). (c # a, b)) (split_zone cs))"

definition parseHost :: "string \<Rightarrow> url_error + string" where
  "parseHost host =
     (if has_prefix ''['' host then
        (case last_split (CHR '']'') host of
           None \<Rightarrow> Inl MissingBracket
         | Some (inner, colonPort) \<Rightarrow>
             if \<not> validOptionalPort colonPort then Inl (InvalidPort colonPort)
             else (case split_zone inner of
                     Some (h1, h2) \<Rightarrow>
                       sbind (unescape encodeHost h1) (\<lambda>a.
                       sbind (unescape encodeZone h2) (\<lambda>b.
                       sbind (unescape encodeHost (CHR '']'' # colonPort)) (\<lambda>c.
                       Inr (a @ b @ c))))
                   | None \<Rightarrow> unescape encodeHost host))
      else
        (case last_split (CHR '':'') host of
           Some (_, port) \<Rightarrow>
             if \<not> validOptionalPort (CHR '':'' # port) then Inl (InvalidPort (CHR '':'' # port))
             else unescape encodeHost host
         | None \<Rightarrow> unescape encodeHost host))"

definition validUserinfo :: "string \<Rightarrow> bool" where
  "validUserinfo s \<longleftrightarrow>
     list_all (\<lambda>c. is_alnum c \<or> c \<in> set ''-._:~!$&()*+,;=%@'' \<or> code c = 39) s"

definition check_userinfo :: "string \<Rightarrow> url_error + unit" where
  "check_userinfo userinfo =
     (if \<not> validUserinfo userinfo then Inl InvalidUserinfo
      else if CHR '':'' \<notin> set userinfo
        then sbind (unescape encodeUserPassword userinfo) (\<lambda>_. Inr ())
      else (let (username, password) = cut (CHR '':'') userinfo
            in sbind (unescape encodeUserPassword username) (\<lambda>_.
               sbind (unescape encodeUserPassword password) (\<lambda>_. Inr ()))))"

text \<open>\<open>parseAuthority\<close>, without the user information it returns.\<close>

definition parseAuthority :: "string \<Rightarrow> url_error + string" where
  "parseAuthority authority =
     (case last_split (CHR ''@'') authority of
        None \<Rightarrow> parseHost authority
      | Some (userinfo, hostport) \<Rightarrow>
          sbind (parseHost hostport) (\<lambda>h. sbind (check_userinfo userinfo) (\<lambda>_. Inr h)))"

definition has_ctl_byte :: "string \<Rightarrow> bool" where
  "has_ctl_byte s \<longleftrightarrow> list_ex (\<lambda>c. code c < 32 \<or> code c = 127) s"

text \<open>The unexported \<open>parse(rawURL, false)\<close>.\<close>

definition parse_rest :: "string \<Rightarrow> string \<Rightarrow> url_error + url" where
  "parse_rest scheme rest =
     (if \<not> has_prefix ''/'' rest \<and> scheme \<noteq> [] then Inr \<lparr>Scheme = scheme, Host = []\<rparr>
      else if \<not> has_prefix ''/'' rest \<and> CHR '':'' \<in> set (fst (cut (CHR ''/'') rest))
        then Inl FirstSegmentColon
      else if (scheme \<noteq> [] \<or> \<not> has_prefix ''///'' rest) \<and> has_prefix ''//'' rest then
        (let auth = takeWhile (\<lambda>x. x \<noteq> CHR ''/'') (drop 2 rest);
             path = dropWhile (\<lambda>x. x \<noteq> CHR ''/'') (drop 2 rest)
         in sbind (parseAuthority auth) (\<lambda>h.
            sbind (unescape encodePath path) (\<lambda>_. Inr \<lparr>Scheme = scheme, Host = h\<rparr>)))
      else sbind (unescape encodePath rest) (\<lambda>_. Inr \<lparr>Scheme = scheme, Host = []\<rparr>))"

definition parse_url :: "string \<Rightarrow> url_error + url" where
  "parse_url raw =
     (if has_ctl_byte raw then Inl ControlChar
      else if raw = ''*'' then Inr \<lparr>Scheme = [], Host = []\<rparr>
      else sbind (getScheme raw) (\<lambda>(scheme, rest).
             parse_rest (map ascii_lower scheme) (fst (cut (CHR ''?'') rest))))"

text \<open>\<open>url.Parse\<close>, with the string its error names.\<close>

definition Parse :: "string \<Rightarrow> (string \<times> url_error) + url" where
  "Parse raw =
     (let (u, frag) = cut (CHR ''#'') raw
      in sbind (map_err (\<lambda>e. (u, e)) (parse_url u)) (\<lambda>r.
         if frag = [] then Inr r
         else sbind (map_err (\<lambda>e. (raw, e)) (unescape encodeFragment frag)) (\<lambda>_. Inr r)))"

definition Hostname :: "url \<Rightarrow> string" where
  "Hostname u =
     (let host = (case last_split (CHR '':'') (Host u) of
                    Some (h, p) \<Rightarrow> if validOptionalPort (CHR '':'' # p) then h else Host u
                  | None \<Rightarrow> Host u)
      in if has_prefix ''['' host \<and> last_split (CHR '']'') host = Some (butlast host, [])
         then butlast (tl host) else host)"

subsection \<open>Error texts\<close>

fun url_error_text :: "golib \<Rightarrow> url_error \<Rightarrow> string" where
  "url_error_text lib ControlChar = ''net/url: invalid control character in URL''"
| "url_error_text lib MissingScheme = ''missing protocol scheme''"
| "url_error_text lib FirstSegmentColon = ''first path segment in URL cannot contain colon''"
| "url_error_text lib MissingBracket = ''missing '' @ [CHR 39] @ '']'' @ [CHR 39] @ '' in host''"
| "url_error_text lib (InvalidPort p) = ''invalid port '' @ quote lib p @ '' after host''"
| "url_error_text lib (InvalidEscape s) = ''invalid URL escape '' @ quote lib s"
| "url_error_text lib (InvalidHostChar s) = ''invalid character '' @ quote lib s @ '' in host name''"
| "url_error_text lib InvalidUserinfo = ''net/url: invalid userinfo''"

definition parse_error_text :: "golib \<Rightarrow> string \<times> url_error \<Rightarrow> string" where
  "parse_error_text lib = (\<lambda>(u, e). ''parse '' @ quote lib u @ '': '' @ url_error_text lib e)"

end
