(* ===== verification/TickUtil.thy ===== *)
theory TickUtil
  imports GoUrl
begin

text \<open>
  \<open>internal/util/util.go\<close>: the domain of a webhook URL, the retry backoff and the classification of
  HTTP status codes. A call of \<open>rand.Int63n\<close> reads the argument \<open>draw\<close>, the raw random number it
  accepts, so a property for all draws is one for all runs.
\<close>

definition MaxBackoffMs :: int where
  "MaxBackoffMs = 10 * 60 * 1000"

definition DefaultJitterMaxMs :: i64 where
  "DefaultJitterMaxMs = 250"

definition ExtractDomain :: "golib \<Rightarrow> string \<Rightarrow> (string \<times> url_error) + string" where
  "ExtractDomain lib rawURL =
     sbind (Parse rawURL) (\<lambda>parsed. Inr (ToLower lib (Hostname parsed)))"

text \<open>\<open>rand.Int63n(n)\<close>, which panics (\<^const>\<open>None\<close>) unless \<open>n\<close> is positive.\<close>

definition Int63n :: "nat \<Rightarrow> i64 \<Rightarrow> i64 option" where
  "Int63n draw n = (if sint n \<le> 0 then None else Some (word_of_int (int draw mod sint n)))"

definition CalculateBackoff :: "golib \<Rightarrow> nat \<Rightarrow> i64 \<Rightarrow> i64 \<Rightarrow> i64 \<Rightarrow> i64 option" where
  "CalculateBackoff lib draw attempt backoffBaseMs jitterMaxMs =
     (let attempt = (if sint attempt < 1 then 1 else attempt);
          exponential = f64_mul (f64_of_int (sint backoffBaseMs)) (Pow2 (sint (attempt - 1)));
          exponential = (if f64_gt exponential MaxBackoffMs then Fin MaxBackoffMs else exponential)
      in map_option (\<lambda>jitter. f64_to_i64 (f2i_undef lib) exponential + jitter)
           (Int63n draw (jitterMaxMs + 1)))"

definition MsToTime :: "i64 \<Rightarrow> go_time" where
  "MsToTime ms = \<lparr>t_unix = word_of_int (sint ms div 1000), t_nsec = nat (sint ms mod 1000) * 1000000\<rparr>"

definition TimeToMs :: "go_time \<Rightarrow> i64" where
  "TimeToMs t = UnixMilli t"

definition IsRetryableHTTPStatus :: "i64 \<Rightarrow> bool" where
  "IsRetryableHTTPStatus statusCode \<longleftrightarrow>
     sint statusCode = 429 \<or> (sint statusCode \<ge> 500 \<and> sint statusCode \<le> 599)"

definition IsSuccessHTTPStatus :: "i64 \<Rightarrow> bool" where
  "IsSuccessHTTPStatus statusCode \<longleftrightarrow> sint statusCode \<ge> 200 \<and> sint statusCode \<le> 299"

definition IsClientErrorHTTPStatus :: "i64 \<Rightarrow> bool" where
  "IsClientErrorHTTPStatus statusCode \<longleftrightarrow>
     sint statusCode \<ge> 400 \<and> sint statusCode \<le> 499 \<and> sint statusCode \<noteq> 429"

text \<open>\<open>NowMs\<close>, for the instant \<open>clock\<close> that \<open>time.Now()\<close> returns.\<close>

definition NowMs :: "go_time \<Rightarrow> i64" where
  "NowMs clock = UnixMilli clock"

subsection \<open>Backoff\<close>

lemma round53_le: "round53 n \<le> 2 * n"
proof (cases "n < 2 ^ 53")
  case True
  then show ?thesis by (simp add: round53_small)
next
  case False
  define P where "P = (2::nat) ^ excess_bits n"
  define q where "q = n div P"
  have "1 \<le> q" using excess_bits_ge [of n] False by (simp add: q_def P_def)
  then have "P \<le> q * P" by simp
  moreover have "q * P \<le> n" by (simp add: q_def)
  ultimately have "(q + 1) * P \<le> 2 * n" unfolding distrib_right mult_1 by linarith
  moreover have "round53 n \<le> max n ((q + 1) * P)"
    by (auto simp: round53_def Let_def P_def [symmetric] q_def [symmetric] max_def)
  ultimately show ?thesis by simp
qed

text \<open>\<open>2 ^ 1024\<close>, the overflow threshold of a \<open>float64\<close>, kept folded so that it is not printed.\<close>

definition f64_lim :: int where
  "f64_lim = 2 ^ 1024"

lemma f64_lim_gt: "2 ^ 64 < f64_lim"
  unfolding f64_lim_def by (rule power_strict_increasing) simp_all

lemma f64_of_int_cases:
  "f64_of_int x =
     (if round_int x \<ge> f64_lim then PInf else if round_int x \<le> - f64_lim then NInf
      else Fin (round_int x))"
  unfolding f64_of_int_def f64_lim_def by (simp only: Let_def)

lemma f64_of_int_i64:
  assumes "0 < b" and "b < 2 ^ 63"
  shows "f64_of_int b = Fin (round_int b)"
proof -
  have "0 \<le> round_int b" "round_int b \<le> 2 * b"
    using round53_le [of "nat b"] assms(1) by (simp_all add: round_int_def)
  with assms f64_lim_gt show ?thesis by (simp add: f64_of_int_cases)
qed

lemma f64_gt_big: "2 ^ 53 \<le> x \<Longrightarrow> f64_gt (f64_of_int x) MaxBackoffMs"
  using round_int_ge [of x] f64_lim_gt by (simp add: f64_of_int_cases MaxBackoffMs_def)

lemma round_int_pos: "0 < b \<Longrightarrow> 0 < round_int b"
  by (cases "b < 2 ^ 53") (use round_int_small [of b] round_int_ge [of b] in auto)

text \<open>The capped exponential, whatever the exponent.\<close>

lemma capped_exponential:
  assumes b: "0 < b" "b < 2 ^ 63" and k: "0 \<le> k"
  defines "e \<equiv> f64_mul (f64_of_int b) (Pow2 k)"
  shows "(if f64_gt e MaxBackoffMs then Fin MaxBackoffMs else e) = Fin (min (b * 2 ^ nat k) MaxBackoffMs)"
proof -
  have cap: "MaxBackoffMs < 2 ^ 53" by (simp add: MaxBackoffMs_def)
  have bk: "b \<le> b * 2 ^ nat k" using b by simp
  consider (inf) "k > 1023" | (big) "k \<le> 1023" "2 ^ 53 \<le> round_int b * 2 ^ nat k"
    | (small) "k \<le> 1023" "round_int b * 2 ^ nat k < 2 ^ 53" by linarith
  then show ?thesis
  proof cases
    case inf
    have "(2::int) ^ 1023 \<le> 2 ^ nat k" using inf by (intro power_increasing) simp_all
    moreover have "(2::int) ^ 53 \<le> 2 ^ 1023" by (rule power_increasing) simp_all
    moreover have "2 ^ nat k \<le> b * 2 ^ nat k" using b by simp
    ultimately have "MaxBackoffMs \<le> b * 2 ^ nat k" using cap by linarith
    with inf show ?thesis
      using round_int_pos [OF b(1)] by (simp add: e_def f64_of_int_i64 [OF b] Pow2_def min_absorb2)
  next
    case big
    have "MaxBackoffMs \<le> b * 2 ^ nat k"
    proof (cases "b < 2 ^ 53")
      case True
      with b big cap show ?thesis by (simp add: round_int_small)
    next
      case False
      with bk cap show ?thesis by linarith
    qed
    with big show ?thesis
      using f64_gt_big [OF big(2)] by (simp add: e_def f64_of_int_i64 [OF b] Pow2_def min_absorb2)
  next
    case small
    have "round_int b \<le> round_int b * 2 ^ nat k" using round_int_pos [OF b(1)] by simp
    with small(2) have "round_int b < 2 ^ 53" by linarith
    then have "b < 2 ^ 53" using round_int_ge [of b] by linarith
    with b have "round_int b = b" by (simp add: round_int_small)
    with small b have "\<bar>b * 2 ^ nat k\<bar> < 2 ^ 53" by simp
    with small \<open>round_int b = b\<close> have "e = Fin (b * 2 ^ nat k)"
      by (simp only: e_def f64_of_int_i64 [OF b] Pow2_def if_True f64_mul.simps f64_of_int_small)
    then show ?thesis by (auto simp: min_def)
  qed
qed

text \<open>The value of the backoff on every validated retry configuration.\<close>

lemma CalculateBackoff_value:
  assumes base: "0 < sint base" and jm: "0 \<le> sint jm" "sint jm < 2 ^ 62"
  shows "\<exists>r. CalculateBackoff lib draw attempt base jm = Some r
    \<and> sint r = min (sint base * 2 ^ nat (max 1 (sint attempt) - 1)) MaxBackoffMs
               + int draw mod (sint jm + 1)"
proof -
  define att where "att = (if sint attempt < 1 then 1 else attempt)"
  define k where "k = max 1 (sint attempt) - 1"
  have att1: "1 \<le> sint att" and att: "sint att = max 1 (sint attempt)" by (auto simp: att_def)
  have "sint (att + (- 1)) = sint att + sint (- 1 :: i64)"
    using att1 sint_i64_range(2) [of att] by (intro sint_add_i64) simp_all
  then have k: "sint (att - 1) = k" "0 \<le> k" using att att1 by (simp_all add: k_def)
  have jm1: "sint (jm + 1) = sint jm + 1" using jm by (intro sint_inc_i64) simp
  define j where "j = int draw mod (sint jm + 1)"
  have j: "0 \<le> j" "j < 2 ^ 62" "j < 2 ^ 63"
    using jm pos_mod_bound [of "sint jm + 1" "int draw"] by (simp_all add: j_def)
  define m where "m = min (sint base * 2 ^ nat k) MaxBackoffMs"
  have "0 \<le> sint base * 2 ^ nat k" using base by simp
  then have m: "0 \<le> m" "m \<le> 600000" by (simp_all add: m_def MaxBackoffMs_def)
  note cap = capped_exponential [OF base sint_i64_range(2) k(2), folded m_def]
  have "CalculateBackoff lib draw attempt base jm
      = map_option (\<lambda>jitter. f64_to_i64 (f2i_undef lib) (Fin m) + jitter) (Int63n draw (jm + 1))"
    by (simp only: CalculateBackoff_def Let_def att_def [symmetric] k(1) cap)
  moreover have "Int63n draw (jm + 1) = Some (word_of_int j)"
    using jm(1) by (simp add: Int63n_def jm1 j_def)
  ultimately have "CalculateBackoff lib draw attempt base jm = Some (word_of_int m + word_of_int j)"
    using m by simp
  moreover have "sint (word_of_int m + word_of_int j :: i64) = m + j"
    using m j by (subst sint_add_i64) (simp_all add: sint_word_of_int_i64)
  ultimately show ?thesis by (simp add: m_def j_def k_def)
qed

end
