(* ===== verification/TickJob.thy ===== *)
theory TickJob
  imports TickUtil
begin

text \<open>
  \<open>internal/model/job.go\<close>: the job and request types, request validation with the defaults it
  fills in, and the construction of a job from a validated request. Validation errors are a
  datatype with the source's texts in \<open>validation_text\<close>; the receiver that \<open>Validate\<close> mutates is
  returned on success (every caller drops it on error).
\<close>

subsection \<open>Data\<close>

type_synonym JobType = string

definition JobTypeOneShot :: JobType where
  "JobTypeOneShot = ''one_shot''"

definition JobTypeRecurring :: JobType where
  "JobTypeRecurring = ''recurring''"

type_synonym JobStatus = string

definition JobStatusPending :: JobStatus where
  "JobStatusPending = ''pending''"

definition JobStatusFailed :: JobStatus where
  "JobStatusFailed = ''failed''"

definition AllowedMethods :: "string \<Rightarrow> bool" where
  "AllowedMethods m \<longleftrightarrow> m \<in> {''GET'', ''POST'', ''PUT'', ''PATCH'', ''DELETE''}"

record Job =
  ID :: string
  Type :: JobType
  DueAtMs :: i64
  IntervalMs :: i64
  Attempt :: i64
  MaxAttempts :: i64
  BackoffBaseMs :: i64
  URL :: string
  Method :: string
  Headers :: "header_map option"
  Body :: "json_obj option"
  TimeoutMs :: i64
  CreatedAtMs :: i64
  UpdatedAtMs :: i64
  LastError :: string
  LastHTTPCode :: i64
  Status :: JobStatus

record WebhookConfig =
  wh_URL :: string
  wh_Method :: string
  wh_Headers :: "header_map option"
  wh_Body :: "json_obj option"
  wh_TimeoutMs :: i64

record RetryConfig =
  rc_MaxAttempts :: i64
  rc_BackoffBaseMs :: i64

record CreateOneShotRequest =
  os_ExecuteAt :: go_time
  os_Webhook :: WebhookConfig
  os_Retry :: "RetryConfig option"

record CreateRecurringRequest =
  rr_StartAt :: go_time
  rr_IntervalMs :: i64
  rr_Webhook :: WebhookConfig
  rr_Retry :: "RetryConfig option"

subsection \<open>Validation\<close>

datatype validation_error =
    UrlRequired
  | UrlInvalid "string \<times> url_error"
  | UrlScheme string
  | UrlNoHost
  | MethodNotAllowed string
  | MaxAttemptsTooSmall
  | BackoffNotPositive
  | ExecuteAtRequired
  | StartAtRequired
  | IntervalNotPositive

fun validation_text :: "golib \<Rightarrow> validation_error \<Rightarrow> string" where
  "validation_text lib UrlRequired = ''webhook.url is required''"
| "validation_text lib (UrlInvalid e) = ''webhook.url is invalid: '' @ parse_error_text lib e"
| "validation_text lib (UrlScheme sch) =
     ''webhook.url must be http:// or https://, got '' @ sch @ ''://''"
| "validation_text lib UrlNoHost = ''webhook.url must have a host''"
| "validation_text lib (MethodNotAllowed m) =
     ''webhook.method must be one of GET, POST, PUT, PATCH, DELETE; got '' @ m"
| "validation_text lib MaxAttemptsTooSmall = ''retry.max_attempts must be >= 1''"
| "validation_text lib BackoffNotPositive = ''retry.backoff_base_ms must be > 0''"
| "validation_text lib ExecuteAtRequired = ''execute_at is required''"
| "validation_text lib StartAtRequired = ''start_at is required''"
| "validation_text lib IntervalNotPositive = ''interval_ms must be > 0''"

definition WebhookConfig_Validate ::
    "golib \<Rightarrow> WebhookConfig \<Rightarrow> i64 \<Rightarrow> validation_error + WebhookConfig" where
  "WebhookConfig_Validate lib w defaultTimeoutMs =
     (if wh_URL w = [] then Inl UrlRequired
      else sbind (map_err UrlInvalid (Parse (wh_URL w))) (\<lambda>parsedURL.
        if Scheme parsedURL \<noteq> ''http'' \<and> Scheme parsedURL \<noteq> ''https''
          then Inl (UrlScheme (Scheme parsedURL))
        else if Host parsedURL = [] then Inl UrlNoHost
        else
          let m = ToUpper lib (wh_Method w);
              w = (if m = [] then w\<lparr>wh_Method := ''POST''\<rparr> else w);
              m = (if m = [] then ''POST'' else m)
          in if \<not> AllowedMethods m then Inl (MethodNotAllowed (wh_Method w))
             else
               let w = w\<lparr>wh_Method := m\<rparr>
               in Inr (if sint (wh_TimeoutMs w) \<le> 0 then w\<lparr>wh_TimeoutMs := defaultTimeoutMs\<rparr>
                       else w)))"

definition RetryConfig_Validate :: "RetryConfig \<Rightarrow> validation_error + unit" where
  "RetryConfig_Validate r =
     (if sint (rc_MaxAttempts r) < 1 then Inl MaxAttemptsTooSmall
      else if sint (rc_BackoffBaseMs r) \<le> 0 then Inl BackoffNotPositive
      else Inr ())"

definition validate_retry :: "RetryConfig option \<Rightarrow> validation_error + unit" where
  "validate_retry retry = (case retry of None \<Rightarrow> Inr () | Some r \<Rightarrow> RetryConfig_Validate r)"

definition CreateOneShotRequest_Validate ::
    "golib \<Rightarrow> CreateOneShotRequest \<Rightarrow> i64 \<Rightarrow> validation_error + CreateOneShotRequest" where
  "CreateOneShotRequest_Validate lib r defaultTimeoutMs =
     (if IsZero (os_ExecuteAt r) then Inl ExecuteAtRequired
      else sbind (WebhookConfig_Validate lib (os_Webhook r) defaultTimeoutMs) (\<lambda>w.
           sbind (validate_retry (os_Retry r)) (\<lambda>_. Inr (r\<lparr>os_Webhook := w\<rparr>))))"

definition CreateRecurringRequest_Validate ::
    "golib \<Rightarrow> CreateRecurringRequest \<Rightarrow> i64 \<Rightarrow> validation_error + CreateRecurringRequest" where
  "CreateRecurringRequest_Validate lib r defaultTimeoutMs =
     (if IsZero (rr_StartAt r) then Inl StartAtRequired
      else if sint (rr_IntervalMs r) \<le> 0 then Inl IntervalNotPositive
      else sbind (WebhookConfig_Validate lib (rr_Webhook r) defaultTimeoutMs) (\<lambda>w.
           sbind (validate_retry (rr_Retry r)) (\<lambda>_. Inr (r\<lparr>rr_Webhook := w\<rparr>))))"

subsection \<open>Job construction\<close>

definition DefaultRetryConfig :: RetryConfig where
  "DefaultRetryConfig = \<lparr>rc_MaxAttempts = 3, rc_BackoffBaseMs = 1000\<rparr>"

text \<open>The argument \<open>clock\<close> is what \<open>time.Now()\<close> returns.\<close>

definition NewOneShotJob ::
    "string \<Rightarrow> CreateOneShotRequest \<Rightarrow> i64 \<Rightarrow> go_time \<Rightarrow> Job" where
  "NewOneShotJob jid req defaultTimeoutMs clock =
     (let retry = (case os_Retry req of None \<Rightarrow> DefaultRetryConfig | Some r \<Rightarrow> r);
          now = UnixMilli clock;
          timeoutMs = wh_TimeoutMs (os_Webhook req);
          timeoutMs = (if sint timeoutMs \<le> 0 then defaultTimeoutMs else timeoutMs)
      in \<lparr>ID = jid, Type = JobTypeOneShot, DueAtMs = UnixMilli (os_ExecuteAt req), IntervalMs = 0,
          Attempt = 0, MaxAttempts = rc_MaxAttempts retry, BackoffBaseMs = rc_BackoffBaseMs retry,
          URL = wh_URL (os_Webhook req), Method = wh_Method (os_Webhook req),
          Headers = wh_Headers (os_Webhook req), Body = wh_Body (os_Webhook req),
          TimeoutMs = timeoutMs, CreatedAtMs = now, UpdatedAtMs = now,
          LastError = [], LastHTTPCode = 0, Status = JobStatusPending\<rparr>)"

definition NewRecurringJob ::
    "string \<Rightarrow> CreateRecurringRequest \<Rightarrow> i64 \<Rightarrow> go_time \<Rightarrow> Job" where
  "NewRecurringJob jid req defaultTimeoutMs clock =
     (let retry = (case rr_Retry req of None \<Rightarrow> DefaultRetryConfig | Some r \<Rightarrow> r);
          now = UnixMilli clock;
          timeoutMs = wh_TimeoutMs (rr_Webhook req);
          timeoutMs = (if sint timeoutMs \<le> 0 then defaultTimeoutMs else timeoutMs)
      in \<lparr>ID = jid, Type = JobTypeRecurring, DueAtMs = UnixMilli (rr_StartAt req),
          IntervalMs = rr_IntervalMs req,
          Attempt = 0, MaxAttempts = rc_MaxAttempts retry, BackoffBaseMs = rc_BackoffBaseMs retry,
          URL = wh_URL (rr_Webhook req), Method = wh_Method (rr_Webhook req),
          Headers = wh_Headers (rr_Webhook req), Body = wh_Body (rr_Webhook req),
          TimeoutMs = timeoutMs, CreatedAtMs = now, UpdatedAtMs = now,
          LastError = [], LastHTTPCode = 0, Status = JobStatusPending\<rparr>)"

subsection \<open>The invariant of a job\<close>

text \<open>
  What a validated configuration guarantees, and what the executor keeps: a web URL with a host,
  an allowed method, a positive timeout and backoff, an interval exactly when recurring, an
  attempt counter within its budget, and a failed status only when the budget is used up.
\<close>

definition url_ok :: "string \<Rightarrow> bool" where
  "url_ok u \<longleftrightarrow>
     (case Parse u of Inl _ \<Rightarrow> False
      | Inr p \<Rightarrow> (Scheme p = ''http'' \<or> Scheme p = ''https'') \<and> Host p \<noteq> [])"

definition job_config_ok :: "Job \<Rightarrow> bool" where
  "job_config_ok j \<longleftrightarrow>
     url_ok (URL j) \<and> AllowedMethods (Method j) \<and> 0 < sint (TimeoutMs j)
     \<and> 1 \<le> sint (MaxAttempts j) \<and> 0 < sint (BackoffBaseMs j)
     \<and> (Type j = JobTypeOneShot \<and> IntervalMs j = 0 \<or> Type j = JobTypeRecurring \<and> 0 < sint (IntervalMs j))"

definition job_inv :: "Job \<Rightarrow> bool" where
  "job_inv j \<longleftrightarrow>
     job_config_ok j \<and> 0 \<le> sint (Attempt j) \<and> sint (Attempt j) \<le> sint (MaxAttempts j)
     \<and> (Status j = JobStatusPending \<and> sint (Attempt j) < sint (MaxAttempts j)
        \<or> Status j = JobStatusFailed \<and> Attempt j = MaxAttempts j)"

lemmas job_consts = JobTypeOneShot_def JobTypeRecurring_def JobStatusPending_def JobStatusFailed_def

subsection \<open>Validation: what is accepted\<close>

lemma url_ok_not_Nil: "url_ok u \<Longrightarrow> u \<noteq> []"
  by (auto simp: url_ok_def Parse_def cut_def parse_url_def has_ctl_byte_def getScheme_def
      parse_rest_def has_prefix_def)

definition effective_method :: "golib \<Rightarrow> string \<Rightarrow> string" where
  "effective_method lib m = (if ToUpper lib m = [] then ''POST'' else ToUpper lib m)"

definition effective_timeout :: "i64 \<Rightarrow> i64 \<Rightarrow> i64" where
  "effective_timeout t d = (if sint t \<le> 0 then d else t)"

lemma WebhookConfig_Validate_iff:
  "WebhookConfig_Validate lib w d = Inr w' \<longleftrightarrow>
     url_ok (wh_URL w) \<and> AllowedMethods (effective_method lib (wh_Method w))
     \<and> w' = w\<lparr>wh_Method := effective_method lib (wh_Method w),
             wh_TimeoutMs := effective_timeout (wh_TimeoutMs w) d\<rparr>"
proof (cases "wh_URL w = []")
  case True
  then show ?thesis
    using url_ok_not_Nil by (auto simp: WebhookConfig_Validate_def)
next
  case False
  then show ?thesis
    by (cases "Parse (wh_URL w)")
      (auto simp: WebhookConfig_Validate_def url_ok_def effective_method_def effective_timeout_def
        Let_def)
qed

lemma RetryConfig_Validate_iff:
  "RetryConfig_Validate r = Inr u \<longleftrightarrow> 1 \<le> sint (rc_MaxAttempts r) \<and> 0 < sint (rc_BackoffBaseMs r)"
  by (auto simp: RetryConfig_Validate_def)

lemma validate_retry_iff:
  "validate_retry rc = Inr u \<longleftrightarrow>
     (\<forall>r. rc = Some r \<longrightarrow> 1 \<le> sint (rc_MaxAttempts r) \<and> 0 < sint (rc_BackoffBaseMs r))"
  by (cases rc) (simp_all add: validate_retry_def RetryConfig_Validate_iff)

lemma CreateOneShotRequest_Validate_iff:
  "CreateOneShotRequest_Validate lib r d = Inr r' \<longleftrightarrow>
     \<not> IsZero (os_ExecuteAt r) \<and> validate_retry (os_Retry r) = Inr ()
     \<and> (\<exists>w. WebhookConfig_Validate lib (os_Webhook r) d = Inr w \<and> r' = r\<lparr>os_Webhook := w\<rparr>)"
  by (auto simp: CreateOneShotRequest_Validate_def sbind_eq_Inr_iff)

lemma CreateRecurringRequest_Validate_iff:
  "CreateRecurringRequest_Validate lib r d = Inr r' \<longleftrightarrow>
     \<not> IsZero (rr_StartAt r) \<and> 0 < sint (rr_IntervalMs r) \<and> validate_retry (rr_Retry r) = Inr ()
     \<and> (\<exists>w. WebhookConfig_Validate lib (rr_Webhook r) d = Inr w \<and> r' = r\<lparr>rr_Webhook := w\<rparr>)"
  by (auto simp: CreateRecurringRequest_Validate_def sbind_eq_Inr_iff)

lemmas validate_iffs = WebhookConfig_Validate_iff CreateOneShotRequest_Validate_iff
  CreateRecurringRequest_Validate_iff validate_retry_iff

lemma effective_timeout_pos: "0 < sint d \<Longrightarrow> 0 < sint (effective_timeout t d)"
  by (simp add: effective_timeout_def)

lemma ToUpper_allowed: "AllowedMethods m \<Longrightarrow> ToUpper lib m = m"
proof -
  assume "AllowedMethods m"
  moreover have "ToUpper lib ''GET'' = ''GET''" "ToUpper lib ''POST'' = ''POST''"
    "ToUpper lib ''PUT'' = ''PUT''" "ToUpper lib ''PATCH'' = ''PATCH''"
    "ToUpper lib ''DELETE'' = ''DELETE''"
    by (simp_all add: ToUpper_def is_ascii_def ascii_upper_def is_lower_def)
  ultimately show ?thesis by (auto simp: AllowedMethods_def)
qed

lemma AllowedMethods_not_Nil: "AllowedMethods m \<Longrightarrow> m \<noteq> []"
  by (auto simp: AllowedMethods_def)

lemma effective_method_allowed: "AllowedMethods m \<Longrightarrow> effective_method lib m = m"
  by (simp add: effective_method_def ToUpper_allowed AllowedMethods_not_Nil)


text \<open>A one-shot request with nothing but a URL and a method in small letters, for concrete runs.\<close>

definition sample_webhook :: WebhookConfig where
  "sample_webhook = \<lparr>wh_URL = ''http://a.io/x'', wh_Method = ''put'', wh_Headers = None,
     wh_Body = None, wh_TimeoutMs = 0\<rparr>"

definition sample_one_shot :: CreateOneShotRequest where
  "sample_one_shot = \<lparr>os_ExecuteAt = \<lparr>t_unix = 1700000000, t_nsec = 5000000\<rparr>,
     os_Webhook = sample_webhook, os_Retry = None\<rparr>"

definition sample_recurring :: CreateRecurringRequest where
  "sample_recurring = \<lparr>rr_StartAt = \<lparr>t_unix = 1700000000, t_nsec = 0\<rparr>, rr_IntervalMs = 60000,
     rr_Webhook = sample_webhook,
     rr_Retry = Some \<lparr>rc_MaxAttempts = 2, rc_BackoffBaseMs = 500\<rparr>\<rparr>"

lemma sample_webhook_valid:
  "WebhookConfig_Validate plain_lib sample_webhook 5000 =
     Inr (sample_webhook\<lparr>wh_Method := ''PUT'', wh_TimeoutMs := 5000\<rparr>)"
proof -
  have "url_ok ''http://a.io/x''" by code_simp
  moreover have "map ascii_upper ''put'' = ''PUT''" by code_simp
  then have "effective_method plain_lib ''put'' = ''PUT''"
    by (simp add: effective_method_def ToUpper_def is_ascii_def)
  ultimately show ?thesis
    by (simp add: WebhookConfig_Validate_iff sample_webhook_def AllowedMethods_def
        effective_timeout_def)
qed

lemma sample_one_shot_valid:
  "CreateOneShotRequest_Validate plain_lib sample_one_shot 5000 =
     Inr (sample_one_shot\<lparr>os_Webhook := sample_webhook\<lparr>wh_Method := ''PUT'', wh_TimeoutMs := 5000\<rparr>\<rparr>)"
  using sample_webhook_valid
  by (simp add: CreateOneShotRequest_Validate_iff sample_one_shot_def IsZero_def validate_retry_def)

lemma sample_recurring_valid:
  "CreateRecurringRequest_Validate plain_lib sample_recurring 5000 =
     Inr (sample_recurring\<lparr>rr_Webhook := sample_webhook\<lparr>wh_Method := ''PUT'', wh_TimeoutMs := 5000\<rparr>\<rparr>)"
  using sample_webhook_valid
  by (simp add: CreateRecurringRequest_Validate_iff sample_recurring_def IsZero_def validate_retry_iff)

subsection \<open>Jobs built from validated requests\<close>

lemma retry_default_ok:
  "validate_retry rc = Inr () \<Longrightarrow>
     1 \<le> sint (rc_MaxAttempts (case rc of None \<Rightarrow> DefaultRetryConfig | Some r \<Rightarrow> r))
     \<and> 0 < sint (rc_BackoffBaseMs (case rc of None \<Rightarrow> DefaultRetryConfig | Some r \<Rightarrow> r))"
  by (cases rc) (simp_all add: validate_retry_iff DefaultRetryConfig_def)

lemma new_one_shot_inv:
  assumes "CreateOneShotRequest_Validate lib r d = Inr r'" and "0 < sint d"
  shows "job_inv (NewOneShotJob jid r' d clock)"
proof -
  from assms(1) have "validate_retry (os_Retry r) = Inr ()"
    by (simp add: CreateOneShotRequest_Validate_iff)
  from retry_default_ok [OF this] assms show ?thesis
    by (auto simp: validate_iffs NewOneShotJob_def Let_def job_inv_def job_config_ok_def job_consts
        effective_timeout_def)
qed

lemma new_recurring_inv:
  assumes "CreateRecurringRequest_Validate lib r d = Inr r'" and "0 < sint d"
  shows "job_inv (NewRecurringJob jid r' d clock)"
proof -
  from assms(1) have "validate_retry (rr_Retry r) = Inr ()"
    by (simp add: CreateRecurringRequest_Validate_iff)
  from retry_default_ok [OF this] assms show ?thesis
    by (auto simp: validate_iffs NewRecurringJob_def Let_def job_inv_def job_config_ok_def job_consts
        effective_timeout_def)
qed

lemma new_job_simps [simp]:
  "ID (NewOneShotJob i req d c) = i" "ID (NewRecurringJob i req' d c) = i"
  "Status (NewOneShotJob i req d c) = JobStatusPending" "Status (NewRecurringJob i req' d c) = JobStatusPending"
  "Attempt (NewOneShotJob i req d c) = 0" "Attempt (NewRecurringJob i req' d c) = 0"
  "Type (NewOneShotJob i req d c) = JobTypeOneShot" "Type (NewRecurringJob i req' d c) = JobTypeRecurring"
  "DueAtMs (NewOneShotJob i req d c) = UnixMilli (os_ExecuteAt req)"
  "DueAtMs (NewRecurringJob i req' d c) = UnixMilli (rr_StartAt req')"
  "IntervalMs (NewRecurringJob i req' d c) = rr_IntervalMs req'"
  "IntervalMs (NewOneShotJob i req d c) = 0"
  "URL (NewOneShotJob i req d c) = wh_URL (os_Webhook req)" "URL (NewRecurringJob i req' d c) = wh_URL (rr_Webhook req')"
  by (simp_all add: NewOneShotJob_def NewRecurringJob_def Let_def)

text \<open>C36 The jobs that the API builds from accepted requests satisfy the job invariant: URL, method,
  timeout and retry budget are valid, they are pending and unattempted, due at the requested
  time, and have no interval, or for a recurring request the requested one, which is positive.\<close>

theorem accepted_request_job:
  assumes "0 < sint d"
  shows "(CreateOneShotRequest_Validate lib os d = Inr os' \<longrightarrow>
      (let j = NewOneShotJob jid os' d clock in
         job_inv j \<and> Type j = JobTypeOneShot \<and> Status j = JobStatusPending \<and> Attempt j = 0
         \<and> DueAtMs j = UnixMilli (os_ExecuteAt os) \<and> URL j = wh_URL (os_Webhook os) \<and> IntervalMs j = 0))
    \<and> (CreateRecurringRequest_Validate lib rr d = Inr rr' \<longrightarrow>
      (let j = NewRecurringJob jid rr' d clock in
         job_inv j \<and> Type j = JobTypeRecurring \<and> Status j = JobStatusPending \<and> Attempt j = 0
         \<and> DueAtMs j = UnixMilli (rr_StartAt rr) \<and> URL j = wh_URL (rr_Webhook rr)
         \<and> IntervalMs j = rr_IntervalMs rr \<and> 0 < sint (IntervalMs j)))"
  using new_one_shot_inv [of lib os d os' jid clock] new_recurring_inv [of lib rr d rr' jid clock] assms
  by (auto simp: CreateOneShotRequest_Validate_iff CreateRecurringRequest_Validate_iff validate_iffs Let_def new_job_simps)

theorem accepted_request_job_witness:
  "job_inv (NewOneShotJob ''j'' (sample_one_shot\<lparr>os_Webhook :=
       sample_webhook\<lparr>wh_Method := ''PUT'', wh_TimeoutMs := 5000\<rparr>\<rparr>) 5000 \<lparr>t_unix = 1700000000, t_nsec = 0\<rparr>)
   \<and> job_inv (NewRecurringJob ''j'' (sample_recurring\<lparr>rr_Webhook :=
       sample_webhook\<lparr>wh_Method := ''PUT'', wh_TimeoutMs := 5000\<rparr>\<rparr>) 5000 \<lparr>t_unix = 1700000000, t_nsec = 0\<rparr>)"
  using accepted_request_job [of 5000 plain_lib sample_one_shot _ "''j''" "\<lparr>t_unix = 1700000000, t_nsec = 0\<rparr>"
      sample_recurring] sample_one_shot_valid sample_recurring_valid
  by (simp add: Let_def)

subsection \<open>The domain of an accepted webhook\<close>








end
