(* ===== verification/TickConfig.thy ===== *)
theory TickConfig
  imports TickJob
begin

text \<open>
  \<open>internal/config/config.go\<close>: the configuration, its defaults, the command-line flags and the
  validation that \<open>Parse\<close> ends with. A flag on the command line is a name with its value, already
  split off by the \<open>flag\<close> package and converted to the flag's type.
\<close>

record Config =
  RedisURL :: string
  AuthToken :: string
  Namespace :: string
  Bind :: string
  PollMs :: i64
  Batch :: i64
  MaxInflight :: i64
  MaxPerDomain :: i64
  DefaultTimeoutMs :: i64
  LogLevel :: string

definition DefaultConfig :: Config where
  "DefaultConfig = \<lparr>RedisURL = [], AuthToken = [], Namespace = ''tickhook'', Bind = ''0.0.0.0:8080'',
     PollMs = 200, Batch = 200, MaxInflight = 200, MaxPerDomain = 5, DefaultTimeoutMs = 5000,
     LogLevel = ''info''\<rparr>"

datatype config_error =
    RedisUrlRequired
  | RedisUrlInvalid "string \<times> url_error"
  | RedisUrlScheme string
  | AuthTokenRequired
  | PollMsNotPositive
  | BatchNotPositive
  | MaxInflightNotPositive
  | MaxPerDomainNotPositive
  | DefaultTimeoutNotPositive
  | LogLevelInvalid string

definition valid_log_level :: "string \<Rightarrow> bool" where
  "valid_log_level l \<longleftrightarrow> l \<in> {''debug'', ''info'', ''warn'', ''error''}"

definition Config_Validate :: "Config \<Rightarrow> config_error + unit" where
  "Config_Validate c =
     (if RedisURL c = [] then Inl RedisUrlRequired
      else sbind (map_err RedisUrlInvalid (Parse (RedisURL c))) (\<lambda>parsedURL.
        if Scheme parsedURL \<noteq> ''redis'' \<and> Scheme parsedURL \<noteq> ''rediss''
          then Inl (RedisUrlScheme (Scheme parsedURL))
        else if AuthToken c = [] then Inl AuthTokenRequired
        else if sint (PollMs c) \<le> 0 then Inl PollMsNotPositive
        else if sint (Batch c) \<le> 0 then Inl BatchNotPositive
        else if sint (MaxInflight c) \<le> 0 then Inl MaxInflightNotPositive
        else if sint (MaxPerDomain c) \<le> 0 then Inl MaxPerDomainNotPositive
        else if sint (DefaultTimeoutMs c) \<le> 0 then Inl DefaultTimeoutNotPositive
        else if \<not> valid_log_level (LogLevel c) then Inl (LogLevelInvalid (LogLevel c))
        else Inr ()))"

subsection \<open>Flags\<close>

datatype flag =
    RedisUrlFlag string
  | AuthTokenFlag string
  | NamespaceFlag string
  | BindFlag string
  | PollMsFlag i64
  | BatchFlag i64
  | MaxInflightFlag i64
  | MaxPerDomainFlag i64
  | DefaultTimeoutMsFlag i64
  | LogLevelFlag string

fun set_flag :: "flag \<Rightarrow> Config \<Rightarrow> Config" where
  "set_flag (RedisUrlFlag v) c = c\<lparr>RedisURL := v\<rparr>"
| "set_flag (AuthTokenFlag v) c = c\<lparr>AuthToken := v\<rparr>"
| "set_flag (NamespaceFlag v) c = c\<lparr>Namespace := v\<rparr>"
| "set_flag (BindFlag v) c = c\<lparr>Bind := v\<rparr>"
| "set_flag (PollMsFlag v) c = c\<lparr>PollMs := v\<rparr>"
| "set_flag (BatchFlag v) c = c\<lparr>Batch := v\<rparr>"
| "set_flag (MaxInflightFlag v) c = c\<lparr>MaxInflight := v\<rparr>"
| "set_flag (MaxPerDomainFlag v) c = c\<lparr>MaxPerDomain := v\<rparr>"
| "set_flag (DefaultTimeoutMsFlag v) c = c\<lparr>DefaultTimeoutMs := v\<rparr>"
| "set_flag (LogLevelFlag v) c = c\<lparr>LogLevel := v\<rparr>"

definition Parse_config :: "flag list \<Rightarrow> config_error + Config" where
  "Parse_config flags =
     (let cfg = fold set_flag flags DefaultConfig
      in sbind (Config_Validate cfg) (\<lambda>_. Inr cfg))"

text \<open>A configuration the process starts with: every limit is positive, the token is not empty.\<close>

definition config_ok :: "Config \<Rightarrow> bool" where
  "config_ok c \<longleftrightarrow>
     (\<exists>u. Parse (RedisURL c) = Inr u \<and> (Scheme u = ''redis'' \<or> Scheme u = ''rediss''))
     \<and> AuthToken c \<noteq> [] \<and> 0 < sint (PollMs c) \<and> 0 < sint (Batch c) \<and> 0 < sint (MaxInflight c)
     \<and> 0 < sint (MaxPerDomain c) \<and> 0 < sint (DefaultTimeoutMs c) \<and> valid_log_level (LogLevel c)"

lemma Parse_Nil: "Parse [] = Inr \<lparr>Scheme = [], Host = []\<rparr>"
  by (simp add: Parse_def cut_def parse_url_def has_ctl_byte_def getScheme_def parse_rest_def
      has_prefix_def)

lemma Config_Validate_iff: "Config_Validate c = Inr u \<longleftrightarrow> config_ok c"
  by (cases "Parse (RedisURL c)")
    (auto simp: Config_Validate_def config_ok_def Parse_Nil not_le)

subsection \<open>The effect of the flags\<close>

text \<open>The value of a flag: the last one given, or its default.\<close>

definition last_or :: "'a \<Rightarrow> 'a list \<Rightarrow> 'a" where
  "last_or d vs = (if vs = [] then d else last vs)"

lemma last_or_simps [simp]: "last_or d [] = d" "last_or d (vs @ [v]) = v"
  by (simp_all add: last_or_def)

lemma flags_config:
  "fold set_flag flags DefaultConfig = \<lparr>
     RedisURL = last_or [] [v. RedisUrlFlag v \<leftarrow> flags],
     AuthToken = last_or [] [v. AuthTokenFlag v \<leftarrow> flags],
     Namespace = last_or ''tickhook'' [v. NamespaceFlag v \<leftarrow> flags],
     Bind = last_or ''0.0.0.0:8080'' [v. BindFlag v \<leftarrow> flags],
     PollMs = last_or 200 [v. PollMsFlag v \<leftarrow> flags],
     Batch = last_or 200 [v. BatchFlag v \<leftarrow> flags],
     MaxInflight = last_or 200 [v. MaxInflightFlag v \<leftarrow> flags],
     MaxPerDomain = last_or 5 [v. MaxPerDomainFlag v \<leftarrow> flags],
     DefaultTimeoutMs = last_or 5000 [v. DefaultTimeoutMsFlag v \<leftarrow> flags],
     LogLevel = last_or ''info'' [v. LogLevelFlag v \<leftarrow> flags]\<rparr>"
proof (induction flags rule: rev_induct)
  case Nil
  show ?case by (simp add: DefaultConfig_def)
next
  case (snoc f flags)
  then show ?case by (cases f) simp_all
qed

text \<open>C38 The flags are accepted exactly when they give a Redis URL with scheme \<open>redis\<close> or \<open>rediss\<close> and a
  token, no limit that is not positive and no unknown log level; a flag given more than once
  counts with its last value, each flag sets its own field only, and one left out has the default
  that the README documents. (Acceptance is not yet a start: \<open>startup_serves_or_fails\<close>.)\<close>

theorem Parse_config_iff:
  "Parse_config flags = Inr c \<longleftrightarrow>
     c = \<lparr>RedisURL = last_or [] [v. RedisUrlFlag v \<leftarrow> flags],
          AuthToken = last_or [] [v. AuthTokenFlag v \<leftarrow> flags],
          Namespace = last_or ''tickhook'' [v. NamespaceFlag v \<leftarrow> flags],
          Bind = last_or ''0.0.0.0:8080'' [v. BindFlag v \<leftarrow> flags],
          PollMs = last_or 200 [v. PollMsFlag v \<leftarrow> flags],
          Batch = last_or 200 [v. BatchFlag v \<leftarrow> flags],
          MaxInflight = last_or 200 [v. MaxInflightFlag v \<leftarrow> flags],
          MaxPerDomain = last_or 5 [v. MaxPerDomainFlag v \<leftarrow> flags],
          DefaultTimeoutMs = last_or 5000 [v. DefaultTimeoutMsFlag v \<leftarrow> flags],
          LogLevel = last_or ''info'' [v. LogLevelFlag v \<leftarrow> flags]\<rparr>
     \<and> (\<exists>u. Parse (RedisURL c) = Inr u \<and> Scheme u \<in> {''redis'', ''rediss''}) \<and> AuthToken c \<noteq> []
     \<and> 0 < sint (PollMs c) \<and> 0 < sint (Batch c) \<and> 0 < sint (MaxInflight c) \<and> 0 < sint (MaxPerDomain c)
     \<and> 0 < sint (DefaultTimeoutMs c) \<and> LogLevel c \<in> {''debug'', ''info'', ''warn'', ''error''}"
proof -
  have "Parse_config flags = Inr c \<longleftrightarrow> c = fold set_flag flags DefaultConfig \<and> config_ok c"
    by (auto simp: Parse_config_def Let_def sbind_eq_Inr_iff Config_Validate_iff)
  then show ?thesis by (simp only: flags_config config_ok_def valid_log_level_def insert_iff empty_iff simp_thms)
qed

lemma default_config_ok:
  "config_ok (DefaultConfig\<lparr>RedisURL := ''redis://h:1'', AuthToken := ''t''\<rparr>)"
proof -
  have "Parse ''redis://h:1'' = Inr \<lparr>Scheme = ''redis'', Host = ''h:1''\<rparr>" by code_simp
  then show ?thesis by (simp add: config_ok_def DefaultConfig_def valid_log_level_def)
qed

end
