(* ===== verification/TickStore.thy ===== *)
theory TickStore
  imports TickConfig
begin

text \<open>
  \<open>internal/store/store.go\<close>: the interface \<open>Store\<close>, as a record of its methods over a state of type
  \<open>'s\<close> (a context only makes calls fail, which every method may do anyway), and its contract, the
  locale \<open>job_store\<close>. The contract is stated over two views of the state: what reading a job would
  give, and the score under which a job is scheduled. It fixes what each method does to both
  views when it succeeds, and that a method that fails has had its whole effect or none.
\<close>

datatype store_error =
    ErrJobNotFound
  | MarshalFailed string string
  | RedisFailed string string
  | InvalidField string num_error
  | InvalidJson string string

record 's Store =
  CreateJob :: "Job \<Rightarrow> 's \<Rightarrow> store_error option \<times> 's"
  GetJob :: "string \<Rightarrow> 's \<Rightarrow> (store_error + Job) \<times> 's"
  UpdateJob :: "Job \<Rightarrow> 's \<Rightarrow> store_error option \<times> 's"
  DeleteJob :: "string \<Rightarrow> 's \<Rightarrow> store_error option \<times> 's"
  GetDueJobs :: "i64 \<Rightarrow> i64 \<Rightarrow> 's \<Rightarrow> (store_error + string list) \<times> 's"
  RemoveFromSchedule :: "string \<Rightarrow> 's \<Rightarrow> store_error option \<times> 's"
  AddToSchedule :: "string \<Rightarrow> i64 \<Rightarrow> 's \<Rightarrow> store_error option \<times> 's"
  Ping :: "'s \<Rightarrow> store_error option \<times> 's"

text \<open>The score of a due time: the nearest \<open>float64\<close>.\<close>

definition score :: "i64 \<Rightarrow> int" where
  "score ms = round_int (sint ms)"

lemma score_exact: "\<bar>sint ms\<bar> < 2 ^ 53 \<Longrightarrow> score ms = sint ms"
  by (simp add: score_def round_int_small)

text \<open>
  What is read back after a write of \<open>j\<close> over the job \<open>old\<close>: the serializer leaves out empty optional
  fields and the hash keeps what it held under them.
\<close>

definition merged :: "Job option \<Rightarrow> Job \<Rightarrow> Job" where
  "merged old j = j\<lparr>
     IntervalMs := (if 0 < sint (IntervalMs j) then IntervalMs j
                    else case old of None \<Rightarrow> 0 | Some k \<Rightarrow> IntervalMs k),
     Headers := (case Headers j of Some h \<Rightarrow> Some h | None \<Rightarrow> Option.bind old Headers),
     Body := (case Body j of Some b \<Rightarrow> Some b | None \<Rightarrow> Option.bind old Body),
     LastError := (if LastError j \<noteq> [] then LastError j
                   else case old of None \<Rightarrow> [] | Some k \<Rightarrow> LastError k),
     LastHTTPCode := (if LastHTTPCode j \<noteq> 0 then LastHTTPCode j
                      else case old of None \<Rightarrow> 0 | Some k \<Rightarrow> LastHTTPCode k)\<rparr>"

lemma merged_simps [simp]:
  "ID (merged old j) = ID j" "Type (merged old j) = Type j" "DueAtMs (merged old j) = DueAtMs j"
  "Attempt (merged old j) = Attempt j" "MaxAttempts (merged old j) = MaxAttempts j"
  "BackoffBaseMs (merged old j) = BackoffBaseMs j" "URL (merged old j) = URL j"
  "Method (merged old j) = Method j" "TimeoutMs (merged old j) = TimeoutMs j"
  "CreatedAtMs (merged old j) = CreatedAtMs j" "UpdatedAtMs (merged old j) = UpdatedAtMs j"
  "Status (merged old j) = Status j"
  by (simp_all add: merged_def)

lemma merged_None: "0 \<le> sint (IntervalMs j) \<Longrightarrow> merged None j = j"
proof -
  assume "0 \<le> sint (IntervalMs j)"
  then have "\<not> 0 < sint (IntervalMs j) \<Longrightarrow> IntervalMs j = 0" by (auto intro: i64_eqI)
  then show ?thesis by (cases j) (auto simp: merged_def split: option.split)
qed

lemma merged_interval_pos: "0 < sint (IntervalMs j) \<Longrightarrow> IntervalMs (merged old j) = IntervalMs j"
  by (simp add: merged_def)

definition present :: "store_error + Job \<Rightarrow> Job option" where
  "present r = (case r of Inl _ \<Rightarrow> None | Inr j \<Rightarrow> Some j)"

lemma present_simps [simp]: "present (Inl e) = None" "present (Inr j) = Some j"
  by (simp_all add: present_def)

text \<open>A readable entry: a job, or no entry at all, but not one that fails to decode.\<close>

definition readable :: "store_error + Job \<Rightarrow> bool" where
  "readable r \<longleftrightarrow> (case r of Inl e \<Rightarrow> e = ErrJobNotFound | Inr _ \<Rightarrow> True)"

lemma readable_simps [simp]: "readable (Inl ErrJobNotFound)" "readable (Inr j)"
  by (simp_all add: readable_def)

locale job_store =
  fixes st :: "'s Store"
    and look :: "'s \<Rightarrow> string \<Rightarrow> store_error + Job"
    and due :: "'s \<Rightarrow> string \<Rightarrow> int option"
    and inv :: "'s \<Rightarrow> bool"
    and storable :: "Job \<Rightarrow> bool"
  assumes get_frame: "inv s \<Longrightarrow> GetJob st i s = (r, s') \<Longrightarrow> inv s' \<and> look s' = look s \<and> due s' = due s"
    and get_found: "inv s \<Longrightarrow> GetJob st i s = (Inr j, s') \<Longrightarrow> look s i = Inr j"
    and get_missing: "inv s \<Longrightarrow> GetJob st i s = (Inl ErrJobNotFound, s') \<Longrightarrow> look s i = Inl ErrJobNotFound"
    and create_inv: "inv s \<Longrightarrow> CreateJob st j s = (e, s') \<Longrightarrow> inv s'"
    and create_ok: "inv s \<Longrightarrow> CreateJob st j s = (None, s') \<Longrightarrow>
        due s' = (due s)(ID j \<mapsto> score (DueAtMs j)) \<and> (\<forall>i. i \<noteq> ID j \<longrightarrow> look s' i = look s i)"
    and create_look: "inv s \<Longrightarrow> CreateJob st j s = (None, s') \<Longrightarrow> storable j \<Longrightarrow>
        readable (look s (ID j)) \<Longrightarrow> look s' (ID j) = Inr (merged (present (look s (ID j))) j)"
    and create_fail: "inv s \<Longrightarrow> CreateJob st j s = (Some er, s') \<Longrightarrow>
        (due s' = due s \<and> look s' = look s)
        \<or> (due s' = (due s)(ID j \<mapsto> score (DueAtMs j)) \<and> (\<forall>i. i \<noteq> ID j \<longrightarrow> look s' i = look s i)
            \<and> (storable j \<longrightarrow> readable (look s (ID j)) \<longrightarrow>
                 look s' (ID j) = Inr (merged (present (look s (ID j))) j)))"
    and update_frame: "inv s \<Longrightarrow> UpdateJob st j s = (e, s') \<Longrightarrow>
        inv s' \<and> due s' = due s \<and> (\<forall>i. i \<noteq> ID j \<longrightarrow> look s' i = look s i)"
    and update_look: "inv s \<Longrightarrow> UpdateJob st j s = (None, s') \<Longrightarrow> storable j \<Longrightarrow>
        readable (look s (ID j)) \<Longrightarrow> look s' (ID j) = Inr (merged (present (look s (ID j))) j)"
    and update_fail: "inv s \<Longrightarrow> UpdateJob st j s = (Some er, s') \<Longrightarrow>
        look s' = look s \<or> (storable j \<longrightarrow> readable (look s (ID j)) \<longrightarrow>
          look s' (ID j) = Inr (merged (present (look s (ID j))) j))"
    and delete_frame: "inv s \<Longrightarrow> DeleteJob st i s = (e, s') \<Longrightarrow>
        inv s' \<and> (\<forall>k. k \<noteq> i \<longrightarrow> look s' k = look s k \<and> due s' k = due s k)"
    and delete_ok: "inv s \<Longrightarrow> DeleteJob st i s = (None, s') \<Longrightarrow>
        look s' i = Inl ErrJobNotFound \<and> due s' i = None"
    and delete_fail: "inv s \<Longrightarrow> DeleteJob st i s = (Some er, s') \<Longrightarrow>
        look s' i = look s i \<and> due s' i = due s i \<or> look s' i = Inl ErrJobNotFound \<and> due s' i = None"
    and due_frame: "inv s \<Longrightarrow> GetDueJobs st now n s = (rd, s') \<Longrightarrow>
        inv s' \<and> look s' = look s \<and> due s' = due s"
    and due_sound: "inv s \<Longrightarrow> GetDueJobs st now n s = (Inr ids, s') \<Longrightarrow>
        distinct ids \<and> (\<forall>i\<in>set ids. \<exists>d. due s i = Some d \<and> d \<le> score now)"
    and due_limit: "inv s \<Longrightarrow> GetDueJobs st now n s = (Inr ids, s') \<Longrightarrow> 0 < sint n \<Longrightarrow>
        length ids \<le> nat (sint n)"
    and due_order: "inv s \<Longrightarrow> GetDueJobs st now n s = (Inr ids, s') \<Longrightarrow>
        sorted (map (\<lambda>i. the (due s i)) ids)"
    and due_complete: "inv s \<Longrightarrow> GetDueJobs st now n s = (Inr ids, s') \<Longrightarrow> due s i = Some d \<Longrightarrow>
        d \<le> score now \<Longrightarrow> i \<notin> set ids \<Longrightarrow>
        0 < sint n \<and> length ids = nat (sint n) \<and> (\<forall>k\<in>set ids. the (due s k) \<le> d)"
    and remove_frame: "inv s \<Longrightarrow> RemoveFromSchedule st i s = (e, s') \<Longrightarrow>
        inv s' \<and> look s' = look s \<and> (\<forall>k. k \<noteq> i \<longrightarrow> due s' k = due s k)"
    and remove_ok: "inv s \<Longrightarrow> RemoveFromSchedule st i s = (None, s') \<Longrightarrow> due s' i = None"
    and remove_fail: "inv s \<Longrightarrow> RemoveFromSchedule st i s = (Some er, s') \<Longrightarrow>
        due s' i = due s i \<or> due s' i = None"
    and add_frame: "inv s \<Longrightarrow> AddToSchedule st i ms s = (e, s') \<Longrightarrow>
        inv s' \<and> look s' = look s \<and> (\<forall>k. k \<noteq> i \<longrightarrow> due s' k = due s k)"
    and add_ok: "inv s \<Longrightarrow> AddToSchedule st i ms s = (None, s') \<Longrightarrow> due s' i = Some (score ms)"
    and add_fail: "inv s \<Longrightarrow> AddToSchedule st i ms s = (Some er, s') \<Longrightarrow>
        due s' i = due s i \<or> due s' i = Some (score ms)"
    and storable_cong: "Headers j = Headers j' \<Longrightarrow> Body j = Body j' \<Longrightarrow> storable j = storable j'"
    and ping_frame: "inv s \<Longrightarrow> Ping st s = (e, s') \<Longrightarrow> inv s' \<and> look s' = look s \<and> due s' = due s"
begin

lemmas frames = get_frame update_frame delete_frame due_frame remove_frame add_frame ping_frame

lemma remove_due: "inv s \<Longrightarrow> RemoveFromSchedule st i s = (None, s') \<Longrightarrow> due s' = (due s)(i := None)"
  using remove_frame [of s i None s'] remove_ok [of s i s'] by auto

lemma add_due: "inv s \<Longrightarrow> AddToSchedule st i ms s = (None, s') \<Longrightarrow> due s' = (due s)(i \<mapsto> score ms)"
  using add_frame [of s i ms None s'] add_ok [of s i ms s'] by auto

lemma create_then_look:
  assumes "inv s" "CreateJob st j s = (None, s')" "storable j" "0 \<le> sint (IntervalMs j)"
    and "look s (ID j) = Inl ErrJobNotFound"
  shows "look s' (ID j) = Inr j" and "due s' (ID j) = Some (score (DueAtMs j))"
  using create_look [OF assms(1-3)] create_ok [OF assms(1,2)] assms(4,5) by (simp_all add: merged_None)

lemma get_answers:
  assumes "inv s" "look s i = Inr j" "GetJob st i s = (r, s')"
  shows "r = Inr j \<or> (\<exists>er. r = Inl er \<and> er \<noteq> ErrJobNotFound)"
  using assms get_found [of s i] get_missing [of s i s'] by (cases r) auto

text \<open>An update over a readable entry leaves the cleared optional fields as they were.\<close>

lemma update_then_look:
  assumes "inv s" "UpdateJob st j s = (None, s')" "storable j" "look s (ID j) = Inr old"
  shows "look s' (ID j) = Inr (merged (Some old) j)"
  using update_look [OF assms(1-3)] assms(4) by simp

end

subsection \<open>The invariant of the stored jobs\<close>

text \<open>
  What the store holds under an id: nothing, or a job with that id which satisfies the job
  invariant and can be stored. The configuration of a job never changes under an id.
\<close>

definition entry_ok :: "(Job \<Rightarrow> bool) \<Rightarrow> string \<Rightarrow> store_error + Job \<Rightarrow> bool" where
  "entry_ok P i r \<longleftrightarrow>
     (case r of Inl e \<Rightarrow> e = ErrJobNotFound | Inr j \<Rightarrow> ID j = i \<and> job_inv j \<and> P j)"

definition jobs_ok :: "(Job \<Rightarrow> bool) \<Rightarrow> (string \<Rightarrow> store_error + Job) \<Rightarrow> bool" where
  "jobs_ok P lk \<longleftrightarrow> (\<forall>i. entry_ok P i (lk i))"

definition same_config :: "Job \<Rightarrow> Job \<Rightarrow> bool" where
  "same_config j k \<longleftrightarrow> ID j = ID k \<and> Type j = Type k \<and> IntervalMs j = IntervalMs k
     \<and> MaxAttempts j = MaxAttempts k \<and> BackoffBaseMs j = BackoffBaseMs k \<and> URL j = URL k
     \<and> Method j = Method k \<and> Headers j = Headers k \<and> Body j = Body k
     \<and> TimeoutMs j = TimeoutMs k \<and> CreatedAtMs j = CreatedAtMs k"

lemma entry_ok_simps [simp]:
  "entry_ok P i (Inl e) = (e = ErrJobNotFound)"
  "entry_ok P i (Inr j) = (ID j = i \<and> job_inv j \<and> P j)"
  by (simp_all add: entry_ok_def)

lemma entry_ok_readable: "entry_ok P i r \<Longrightarrow> readable r"
  by (cases r) auto

lemma same_config_refl [simp]: "same_config j j"
  by (simp add: same_config_def)

lemma same_config_sym: "same_config j k \<Longrightarrow> same_config k j"
  by (simp add: same_config_def)

lemma same_config_trans: "same_config j k \<Longrightarrow> same_config k l \<Longrightarrow> same_config j l"
  by (simp add: same_config_def)

text \<open>Over a job of the same configuration a merge leaves stale at most the last error.\<close>

lemma merged_same:
  assumes "same_config j k" and "job_inv j"
  shows "merged (Some k) j = j\<lparr>
    LastError := (if LastError j \<noteq> [] then LastError j else LastError k),
    LastHTTPCode := (if LastHTTPCode j \<noteq> 0 then LastHTTPCode j else LastHTTPCode k)\<rparr>"
  using assms by (cases j, cases k) (auto simp: merged_def same_config_def split: option.split)

lemma job_inv_cong_error: "job_inv (j\<lparr>LastError := a, LastHTTPCode := b\<rparr>) = job_inv j"
  by (simp add: job_inv_def job_config_ok_def)

lemma job_inv_interval: "job_inv j \<Longrightarrow> 0 \<le> sint (IntervalMs j)"
  by (auto simp: job_inv_def job_config_ok_def)

lemma same_config_merged: "same_config j k \<Longrightarrow> job_inv j \<Longrightarrow> same_config (merged (Some k) j) j"
  by (simp add: merged_same) (simp add: same_config_def)

context job_store
begin

text \<open>One write of a valid job over an entry of the same configuration, errors included.\<close>

lemma update_entry:
  assumes "inv s" "UpdateJob st j s = (e, s')" "job_inv j" "storable j"
    and "entry_ok storable (ID j) (look s (ID j))"
    and "\<And>k. look s (ID j) = Inr k \<Longrightarrow> same_config j k"
  shows "look s' (ID j) = look s (ID j) \<and> e \<noteq> None
    \<or> look s' (ID j) = Inr (merged (present (look s (ID j))) j)"
    and "entry_ok storable (ID j) (look s' (ID j))"
proof -
  have rd: "readable (look s (ID j))" using assms(5) by (rule entry_ok_readable)
  show r: "look s' (ID j) = look s (ID j) \<and> e \<noteq> None
      \<or> look s' (ID j) = Inr (merged (present (look s (ID j))) j)"
    using update_look [OF assms(1) _ assms(4) rd] update_fail [OF assms(1)] assms(2,4) rd
    by (cases e) fastforce+
  have "entry_ok storable (ID j) (Inr (merged (present (look s (ID j))) j))"
  proof (cases "look s (ID j)")
    case (Inl er)
    with assms(3,4) show ?thesis by (simp add: merged_None job_inv_interval)
  next
    case (Inr k)
    have "same_config j k" using assms(6) [OF Inr] .
    then have m: "merged (Some k) j = j\<lparr>
        LastError := (if LastError j \<noteq> [] then LastError j else LastError k),
        LastHTTPCode := (if LastHTTPCode j \<noteq> 0 then LastHTTPCode j else LastHTTPCode k)\<rparr>"
      using assms(3) by (rule merged_same)
    have "storable (merged (Some k) j)"
      using storable_cong [of "merged (Some k) j" j] assms(4) by (simp add: m)
    moreover have "job_inv (merged (Some k) j)" using assms(3) by (simp only: m job_inv_cong_error)
    ultimately show ?thesis by (simp add: Inr)
  qed
  with r assms(5) show "entry_ok storable (ID j) (look s' (ID j))" by metis
qed

lemma update_jobs_ok:
  assumes "inv s" "UpdateJob st j s = (e, s')" "job_inv j" "storable j" "jobs_ok storable (look s)"
    and "\<And>k. look s (ID j) = Inr k \<Longrightarrow> same_config j k"
  shows "jobs_ok storable (look s')"
proof -
  have "entry_ok storable (ID j) (look s' (ID j))"
    using assms by (intro update_entry(2) [OF assms(1-4)]) (auto simp: jobs_ok_def)
  then show ?thesis
    using update_frame [OF assms(1,2)] assms(5) unfolding jobs_ok_def by metis
qed

lemma create_jobs_ok:
  assumes "inv s" "CreateJob st j s = (e, s')" "job_inv j" "storable j" "jobs_ok storable (look s)"
    and "look s (ID j) = Inl ErrJobNotFound"
  shows "jobs_ok storable (look s')"
proof -
  have m: "merged None j = j" using merged_None job_inv_interval [OF assms(3)] .
  have "look s' = look s \<or> (\<forall>i. i \<noteq> ID j \<longrightarrow> look s' i = look s i) \<and> look s' (ID j) = Inr j"
    using create_ok [OF assms(1), of j s'] create_look [OF assms(1) _ assms(4), of s']
      create_fail [OF assms(1), of j _ s'] assms(2,4,6)
    by (cases e) (auto simp: m)
  with assms(3-5) show ?thesis unfolding jobs_ok_def by (metis entry_ok_simps(2))
qed

lemma delete_jobs_ok:
  assumes "inv s" "DeleteJob st i s = (e, s')" "jobs_ok storable (look s)"
  shows "jobs_ok storable (look s')"
proof -
  have "look s' i = look s i \<or> look s' i = Inl ErrJobNotFound"
    using delete_ok [OF assms(1), of i s'] delete_fail [OF assms(1), of i _ s'] assms(2)
    by (cases e) auto
  with delete_frame [OF assms(1,2)] assms(3) show ?thesis
    unfolding jobs_ok_def by (metis entry_ok_simps(1))
qed

end

end
