(* ===== verification/GoJson.thy ===== *)
theory GoJson
  imports GoUrl "HOL-Library.Char_ord" "HOL-Library.List_Lexorder"
begin

text \<open>
  What the program uses of \<open>encoding/json\<close> (Go 1.22) on header maps: the encoder of strings and of
  \<open>map[string]string\<close>, the syntax check and parser of a JSON text, and the decoder into a
  \<open>map[string]string\<close>. Strings are bytes; whether they are UTF-8 matters, since both directions put
  U+FFFD in the place of a byte that is not. Error texts are not modelled.
\<close>

subsection \<open>UTF-8\<close>

definition in_range :: "nat \<Rightarrow> nat \<Rightarrow> char \<Rightarrow> bool" where
  "in_range lo hi c \<longleftrightarrow> lo \<le> code c \<and> code c \<le> hi"

text \<open>The length of the multi-byte rune at the front of a string as \<open>utf8.DecodeRune\<close> sees it, 0 if none.\<close>

fun rune_len :: "string \<Rightarrow> nat" where
  "rune_len (a # b # cs) =
     (if in_range 194 223 a then (if in_range 128 191 b then 2 else 0)
      else if in_range 224 239 a then
        (case cs of
           c # _ \<Rightarrow> if in_range (if code a = 224 then 160 else 128) (if code a = 237 then 159 else 191) b
                     \<and> in_range 128 191 c then 3 else 0
         | [] \<Rightarrow> 0)
      else if in_range 240 244 a then
        (case cs of
           c # d # _ \<Rightarrow> if in_range (if code a = 240 then 144 else 128) (if code a = 244 then 143 else 191) b
                     \<and> in_range 128 191 c \<and> in_range 128 191 d then 4 else 0
         | _ \<Rightarrow> 0)
      else 0)"
| "rune_len s = 0"

lemma rune_len_bounds: "rune_len s \<noteq> 0 \<Longrightarrow> 2 \<le> rune_len s \<and> rune_len s \<le> length s"
  by (induction s rule: rune_len.induct) (auto split: if_splits list.splits)

lemma rune_len_head: "rune_len (c # cs) \<noteq> 0 \<Longrightarrow> 128 \<le> code c"
  by (cases cs) (auto simp: in_range_def split: if_splits)

lemma rune_len_append: "rune_len s \<noteq> 0 \<Longrightarrow> rune_len (take (rune_len s) s @ t) = rune_len s"
  by (induction s rule: rune_len.induct) (auto split: if_splits list.splits)

function utf8 :: "string \<Rightarrow> bool" where
  "utf8 [] = True"
| "utf8 (c # cs) =
     (if code c < 128 then utf8 cs
      else if rune_len (c # cs) = 0 then False
      else utf8 (drop (rune_len (c # cs)) (c # cs)))"
  by pat_completeness auto
termination
  by (relation "measure length") (auto dest: rune_len_bounds)

lemma is_ascii_utf8: "is_ascii s \<Longrightarrow> utf8 s"
  by (induction s) (auto simp: is_ascii_def)

text \<open>\<open>utf8.AppendRune\<close>, for a rune that is no surrogate.\<close>

definition encode_rune :: "nat \<Rightarrow> string" where
  "encode_rune r =
     (if r < 128 then [char_of r]
      else if r < 2048 then [char_of (192 + r div 64), char_of (128 + r mod 64)]
      else if r < 65536 then
        [char_of (224 + r div 4096), char_of (128 + r div 64 mod 64), char_of (128 + r mod 64)]
      else [char_of (240 + r div 262144), char_of (128 + r div 4096 mod 64),
            char_of (128 + r div 64 mod 64), char_of (128 + r mod 64)])"

definition RuneError :: nat where
  "RuneError = 65533"

subsection \<open>Strings\<close>

definition hexdigit :: "nat \<Rightarrow> char" where
  "hexdigit n = char_of (if n < 10 then 48 + n else 87 + n)"

text \<open>\<open>appendString\<close> with the HTML characters escaped, between the quotes.\<close>

definition escape_ascii :: "char \<Rightarrow> string" where
  "escape_ascii c =
     (if c = CHR 34 then [CHR 92, CHR 34]
      else if c = CHR 92 then [CHR 92, CHR 92]
      else if code c = 8 then [CHR 92, CHR ''b'']
      else if code c = 12 then [CHR 92, CHR ''f'']
      else if code c = 10 then [CHR 92, CHR ''n'']
      else if code c = 13 then [CHR 92, CHR ''r'']
      else if code c = 9 then [CHR 92, CHR ''t'']
      else if code c < 32 \<or> c \<in> {CHR ''<'', CHR ''>'', CHR ''&''}
        then [CHR 92, CHR ''u'', CHR ''0'', CHR ''0'', hexdigit (code c div 16), hexdigit (code c mod 16)]
      else [c])"

function json_chars :: "string \<Rightarrow> string" where
  "json_chars [] = []"
| "json_chars (c # cs) =
     (if code c < 128 then escape_ascii c @ json_chars cs
      else let n = rune_len (c # cs) in
        if n = 0 then CHR 92 # ''ufffd'' @ json_chars cs
        else (if take n (c # cs) = encode_rune 8232 then CHR 92 # ''u2028''
              else if take n (c # cs) = encode_rune 8233 then CHR 92 # ''u2029''
              else take n (c # cs)) @ json_chars (drop n (c # cs)))"
  by pat_completeness auto
termination
  by (relation "measure length") (auto dest: rune_len_bounds)

definition json_string :: "string \<Rightarrow> string" where
  "json_string s = CHR 34 # json_chars s @ [CHR 34]"

text \<open>\<open>getu4\<close>, after the backslash and the u.\<close>

fun hex4 :: "string \<Rightarrow> (nat \<times> string) option" where
  "hex4 (a # b # c # d # cs) =
     (if ishex a \<and> ishex b \<and> ishex c \<and> ishex d
      then Some (4096 * unhex a + 256 * unhex b + 16 * unhex c + unhex d, cs) else None)"
| "hex4 cs = None"

lemma hex4_length: "hex4 s = Some (r, t) \<Longrightarrow> length t < length s"
  by (induction s rule: hex4.induct) (auto split: if_splits)

text \<open>The second half of a surrogate pair, when it follows.\<close>

definition low_surrogate :: "string \<Rightarrow> (nat \<times> string) option" where
  "low_surrogate s =
     (case s of
        x # y # cs \<Rightarrow>
          if x = CHR 92 \<and> y = CHR ''u'' then
            (case hex4 cs of
               Some (r, t) \<Rightarrow> if 56320 \<le> r \<and> r < 57344 then Some (r, t) else None
             | None \<Rightarrow> None)
          else None
      | _ \<Rightarrow> None)"

lemma low_surrogate_length: "low_surrogate s = Some (r, t) \<Longrightarrow> length t < length s"
  by (auto simp: low_surrogate_def split: list.splits if_splits option.splits dest: hex4_length)

text \<open>The runes of an escape, whether pair or single, and what is left.\<close>

definition unicode_escape :: "string \<Rightarrow> (string \<times> string) option" where
  "unicode_escape s =
     (case hex4 s of
        None \<Rightarrow> None
      | Some (r, t) \<Rightarrow>
          if 55296 \<le> r \<and> r < 57344 then
            (case low_surrogate t of
               Some (r2, t2) \<Rightarrow>
                 if r < 56320 then Some (encode_rune (65536 + (r - 55296) * 1024 + (r2 - 56320)), t2)
                 else Some (encode_rune RuneError, t)
             | None \<Rightarrow> Some (encode_rune RuneError, t))
          else Some (encode_rune r, t))"

lemma unicode_escape_length: "unicode_escape s = Some (x, t) \<Longrightarrow> length t < length s"
  by (auto simp: unicode_escape_def split: option.splits if_splits
      dest!: hex4_length low_surrogate_length)

definition simple_escape :: "char \<Rightarrow> char option" where
  "simple_escape c =
     (if c \<in> {CHR 34, CHR 92, CHR ''/''} then Some c
      else if c = CHR ''b'' then Some (CHR 8)
      else if c = CHR ''f'' then Some (CHR 12)
      else if c = CHR ''n'' then Some (CHR 10)
      else if c = CHR ''r'' then Some (CHR 13)
      else if c = CHR ''t'' then Some (CHR 9)
      else None)"

definition prepend :: "string \<Rightarrow> (string \<times> string) option \<Rightarrow> (string \<times> string) option" where
  "prepend x r = map_option (apfst ((@) x)) r"

text \<open>A string literal after its opening quote: its value, and what follows the closing quote.\<close>

function unquote :: "string \<Rightarrow> (string \<times> string) option" where
  "unquote [] = None"
| "unquote (c # cs) =
     (if c = CHR 34 then Some ([], cs)
      else if code c < 32 then None
      else if c = CHR 92 then
        (case cs of
           [] \<Rightarrow> None
         | e # rest \<Rightarrow>
             if e = CHR ''u'' then
               (case unicode_escape rest of None \<Rightarrow> None | Some (x, t) \<Rightarrow> prepend x (unquote t))
             else (case simple_escape e of None \<Rightarrow> None | Some x \<Rightarrow> prepend [x] (unquote rest)))
      else if code c < 128 then prepend [c] (unquote cs)
      else if rune_len (c # cs) = 0 then prepend (encode_rune RuneError) (unquote cs)
      else prepend (take (rune_len (c # cs)) (c # cs)) (unquote (drop (rune_len (c # cs)) (c # cs))))"
  by pat_completeness auto
termination
  by (relation "measure length") (auto dest: rune_len_bounds unicode_escape_length)

lemma unquote_simps:
  "unquote (CHR 34 # t) = Some ([], t)"
  "unquote (CHR 92 # CHR ''u'' # t) = (case unicode_escape t of None \<Rightarrow> None | Some (x, r) \<Rightarrow> prepend x (unquote r))"
  "e \<noteq> CHR ''u'' \<Longrightarrow> simple_escape e = Some x \<Longrightarrow> unquote (CHR 92 # e # t) = prepend [x] (unquote t)"
  "c \<noteq> CHR 34 \<Longrightarrow> c \<noteq> CHR 92 \<Longrightarrow> 32 \<le> code c \<Longrightarrow> code c < 128 \<Longrightarrow> unquote (c # t) = prepend [c] (unquote t)"
  by simp_all

declare unquote.simps [simp del]

subsection \<open>A string survives\<close>

lemma hexdigit: "n < 16 \<Longrightarrow> ishex (hexdigit n) \<and> unhex (hexdigit n) = n"
  by (auto simp: hexdigit_def ishex_def unhex_def is_digit_def)

lemma code_eqD: "code c = n \<Longrightarrow> c = char_of n"
  by (metis char_of_char)

lemma unicode_escape_low:
  assumes "n < 128"
  shows "unicode_escape (CHR ''0'' # CHR ''0'' # hexdigit (n div 16) # hexdigit (n mod 16) # t) = Some ([char_of n], t)"
proof -
  have "ishex (CHR ''0'')" "unhex (CHR ''0'') = 0" by code_simp+
  moreover have "n div 16 < 16" "n mod 16 < 16" using assms by simp_all
  ultimately have "hex4 (CHR ''0'' # CHR ''0'' # hexdigit (n div 16) # hexdigit (n mod 16) # t) = Some (n, t)"
    using hexdigit [of "n div 16"] hexdigit [of "n mod 16"] by simp
  then show ?thesis using assms by (simp add: unicode_escape_def encode_rune_def)
qed

lemma unicode_escape_separators:
  "unicode_escape (CHR ''2'' # CHR ''0'' # CHR ''2'' # CHR ''8'' # t) = Some (encode_rune 8232, t)"
  "unicode_escape (CHR ''2'' # CHR ''0'' # CHR ''2'' # CHR ''9'' # t) = Some (encode_rune 8233, t)"
proof -
  have "ishex (CHR ''0'') \<and> ishex (CHR ''2'') \<and> ishex (CHR ''8'') \<and> ishex (CHR ''9'')"
    "unhex (CHR ''0'') = 0 \<and> unhex (CHR ''2'') = 2 \<and> unhex (CHR ''8'') = 8 \<and> unhex (CHR ''9'') = 9"
    by code_simp+
  then show "unicode_escape (CHR ''2'' # CHR ''0'' # CHR ''2'' # CHR ''8'' # t) = Some (encode_rune 8232, t)"
    "unicode_escape (CHR ''2'' # CHR ''0'' # CHR ''2'' # CHR ''9'' # t) = Some (encode_rune 8233, t)"
    by (simp_all add: unicode_escape_def)
qed

lemma simple_escapes:
  "simple_escape (CHR 34) = Some (CHR 34)" "simple_escape (CHR 92) = Some (CHR 92)"
  "simple_escape (CHR ''b'') = Some (CHR 8)" "simple_escape (CHR ''f'') = Some (CHR 12)"
  "simple_escape (CHR ''n'') = Some (CHR 10)" "simple_escape (CHR ''r'') = Some (CHR 13)"
  "simple_escape (CHR ''t'') = Some (CHR 9)"
  by (simp_all add: simple_escape_def)

lemma control_chars:
  "char_of (8 :: nat) = CHR 8" "char_of (9 :: nat) = CHR 9" "char_of (10 :: nat) = CHR 10"
  "char_of (12 :: nat) = CHR 12" "char_of (13 :: nat) = CHR 13"
  by code_simp+

lemma unquote_escape_ascii:
  assumes "code c < 128"
  shows "unquote (escape_ascii c @ t) = prepend [c] (unquote t)"
proof -
  show ?thesis
  proof (cases "c = CHR 34 \<or> c = CHR 92 \<or> code c = 8 \<or> code c = 12 \<or> code c = 10 \<or> code c = 13 \<or> code c = 9")
    case True
    then show ?thesis
      by (elim disjE) (auto simp: escape_ascii_def unquote_simps(3) simple_escapes control_chars dest!: code_eqD)
  next
    case False
    show ?thesis
    proof (cases "code c < 32 \<or> c \<in> {CHR ''<'', CHR ''>'', CHR ''&''}")
      case True
      with False have "escape_ascii c
          = [CHR 92, CHR ''u'', CHR ''0'', CHR ''0'', hexdigit (code c div 16), hexdigit (code c mod 16)]"
        unfolding escape_ascii_def by (simp only: de_Morgan_disj if_False if_True simp_thms)
      then show ?thesis using unicode_escape_low [OF assms, of t] by (simp add: unquote_simps(2))
    next
      case plain: False
      with False have "escape_ascii c = [c]"
        unfolding escape_ascii_def by (simp only: de_Morgan_disj if_False simp_thms)
      then show ?thesis using assms False plain by (simp add: unquote_simps(4))
    qed
  qed
qed

lemma unquote_rune:
  assumes "rune_len s \<noteq> 0"
  shows "unquote (take (rune_len s) s @ t) = prepend (take (rune_len s) s) (unquote t)"
proof -
  obtain c cs where s: "s = c # cs" using assms by (cases s) auto
  have c: "128 \<le> code c" using assms rune_len_head s by blast
  then have ne: "c \<noteq> CHR 34" "c \<noteq> CHR 92" by auto
  obtain k where k: "rune_len s = Suc k" using assms by (cases "rune_len s") auto
  have len: "length (take (rune_len s) s) = rune_len s" using rune_len_bounds [OF assms] by simp
  have "unquote (take (rune_len s) s @ t)
      = prepend (take (rune_len s) (take (rune_len s) s @ t)) (unquote (drop (rune_len s) (take (rune_len s) s @ t)))"
    using unquote.simps(2) [of c "take k cs @ t"] rune_len_append [OF assms, of t] assms c ne k
    by (simp add: s)
  then show ?thesis using len by simp
qed

lemma prepend_Some [simp]: "prepend x (Some (y, t)) = Some (x @ y, t)"
  by (simp add: prepend_def)

text \<open>A UTF-8 string is read back from its literal.\<close>

lemma unquote_json_chars: "utf8 s \<Longrightarrow> unquote (json_chars s @ CHR 34 # t) = Some (s, t)"
proof (induction s rule: json_chars.induct)
  case 1
  then show ?case by (simp add: unquote_simps)
next
  case (2 c cs)
  show ?case
  proof (cases "code c < 128")
    case True
    with 2 show ?thesis by (simp add: unquote_escape_ascii)
  next
    case False
    define n where "n = rune_len (c # cs)"
    have n: "n \<noteq> 0" "utf8 (drop n (c # cs))" using 2(4) False by (simp_all add: n_def split: if_splits)
    have ih: "unquote (json_chars (drop n (c # cs)) @ CHR 34 # t) = Some (drop n (c # cs), t)"
      using 2(3) [OF False n_def n] .
    have e: "json_chars (c # cs) = (if take n (c # cs) = encode_rune 8232 then CHR 92 # ''u2028''
              else if take n (c # cs) = encode_rune 8233 then CHR 92 # ''u2029''
              else take n (c # cs)) @ json_chars (drop n (c # cs))"
      using False n(1) by (simp add: n_def Let_def)
    have split: "take n (c # cs) @ drop n (c # cs) = c # cs" by (rule append_take_drop_id)
    consider "take n (c # cs) = encode_rune 8232" | "take n (c # cs) = encode_rune 8233"
      | "json_chars (c # cs) = take n (c # cs) @ json_chars (drop n (c # cs))" using e by presburger
    then show ?thesis
    proof cases
      case 1
      with e ih split show ?thesis by (simp add: unquote_simps(2) unicode_escape_separators del: drop_Cons')
    next
      case 2
      have "encode_rune 8233 \<noteq> encode_rune 8232" by (simp add: encode_rune_def)
      with 2 e ih split show ?thesis by (simp add: unquote_simps(2) unicode_escape_separators)
    next
      case 3
      have "unquote (take n (c # cs) @ (json_chars (drop n (c # cs)) @ CHR 34 # t))
          = prepend (take n (c # cs)) (unquote (json_chars (drop n (c # cs)) @ CHR 34 # t))"
        unfolding n_def by (rule unquote_rune) (use n(1) in \<open>simp only: n_def not_False_eq_True\<close>)
      then show ?thesis unfolding 3 append.assoc ih by (simp only: prepend_Some split)
    qed
  qed
qed

end
