(* ===== verification/JsonMap.thy ===== *)
theory JsonMap
  imports GoJson
begin

text \<open>
  JSON texts and header maps: the syntax that \<open>json.Unmarshal\<close> accepts, as a parser to values whose
  numbers stay literals, and \<open>json.Marshal\<close> and \<open>json.Unmarshal\<close> at the type \<open>map[string]string\<close>,
  with the theorem that a map of UTF-8 strings comes back.
\<close>

subsection \<open>Syntax\<close>

datatype jval =
    VNull
  | VBool bool
  | VNum string
  | VStr string
  | VArr "jval list"
  | VObj "(string \<times> jval) list"

definition is_space :: "char \<Rightarrow> bool" where
  "is_space c \<longleftrightarrow> code c = 32 \<or> code c = 9 \<or> code c = 10 \<or> code c = 13"

definition skip_ws :: "string \<Rightarrow> string" where
  "skip_ws s = dropWhile is_space s"

definition expect :: "char \<Rightarrow> string \<Rightarrow> string option" where
  "expect c s = (case skip_ws s of [] \<Rightarrow> None | x # t \<Rightarrow> if x = c then Some t else None)"

text \<open>An optional part of a number literal: digits after a mark, at least one.\<close>

definition digits1 :: "string \<Rightarrow> string \<Rightarrow> (string \<times> string) option" where
  "digits1 pre s =
     (let ds = takeWhile is_digit s
      in if ds = [] then None else Some (pre @ ds, dropWhile is_digit s))"

definition parse_frac :: "string \<Rightarrow> (string \<times> string) option" where
  "parse_frac s = (case s of c # t \<Rightarrow> if c = CHR ''.'' then digits1 [c] t else Some ([], s) | [] \<Rightarrow> Some ([], s))"

definition parse_exp :: "string \<Rightarrow> (string \<times> string) option" where
  "parse_exp s =
     (case s of
        [] \<Rightarrow> Some ([], s)
      | e # t \<Rightarrow>
          if e = CHR ''e'' \<or> e = CHR ''E'' then
            (case t of
               [] \<Rightarrow> None
             | g # u \<Rightarrow> if g = CHR ''+'' \<or> g = CHR ''-'' then digits1 [e, g] u else digits1 [e] t)
          else Some ([], s))"

definition parse_num :: "string \<Rightarrow> (string \<times> string) option" where
  "parse_num s =
     (let (sign, s1) = (case s of c # t \<Rightarrow> if c = CHR ''-'' then ([c], t) else ([], s) | [] \<Rightarrow> ([], s))
      in Option.bind
           (case s1 of
              [] \<Rightarrow> None
            | c # t \<Rightarrow> if c = CHR ''0'' then Some ([c], t) else digits1 [] s1)
           (\<lambda>(i, s2). Option.bind (parse_frac s2) (\<lambda>(f, s3).
              Option.bind (parse_exp s3) (\<lambda>(e, s4). Some (sign @ i @ f @ e, s4)))))"

lemma skip_ws_length: "length (skip_ws s) \<le> length s"
  by (simp add: skip_ws_def length_dropWhile_le)

lemma expect_length: "expect c s = Some t \<Longrightarrow> length t < length s"
  using skip_ws_length [of s] by (auto simp: expect_def split: list.splits if_splits)

lemma prepend_SomeD: "prepend x r = Some (y, t) \<Longrightarrow> \<exists>z. r = Some (z, t)"
  by (cases r) (auto simp: prepend_def)

lemma unquote_length: "unquote s = Some (x, t) \<Longrightarrow> length t < length s"
proof (induction s arbitrary: x t rule: unquote.induct)
  case (2 c cs)
  show ?case
  proof (cases "c = CHR 34")
    case True
    with 2 show ?thesis by (simp add: unquote.simps)
  next
    case False
    note q = False
    show ?thesis
    proof (cases "c = CHR 92")
      case True
      from 2(6) True obtain e rest where cs: "cs = e # rest"
        by (cases cs) (simp_all add: unquote.simps)
      show ?thesis
      proof (cases "e = CHR ''u''")
        case True
        with 2(6) \<open>c = CHR 92\<close> cs obtain x1 t1 where u: "unicode_escape rest = Some (x1, t1)"
          and p: "prepend x1 (unquote t1) = Some (x, t)"
          by (auto simp: unquote_simps split: option.splits)
        from prepend_SomeD [OF p] obtain z where z: "unquote t1 = Some (z, t)" by blast
        from 2(1) [OF q _ \<open>c = CHR 92\<close> cs True u _ z] unicode_escape_length [OF u] cs \<open>c = CHR 92\<close>
        show ?thesis by simp
      next
        case False
        with 2(6) \<open>c = CHR 92\<close> cs obtain x1 where u: "simple_escape e = Some x1"
          and p: "prepend [x1] (unquote rest) = Some (x, t)"
          by (auto simp: unquote.simps split: option.splits)
        from prepend_SomeD [OF p] obtain z where z: "unquote rest = Some (z, t)" by blast
        from 2(2) [OF q _ \<open>c = CHR 92\<close> cs False u z] cs \<open>c = CHR 92\<close> show ?thesis by simp
      qed
    next
      case False
      show ?thesis
      proof (cases "code c < 128")
        case True
        with 2(6) q False have "32 \<le> code c" by (auto simp: unquote.simps split: if_splits)
        with 2(3,6) q False True show ?thesis
          by (auto simp: unquote_simps(4) dest!: prepend_SomeD)
      next
        case big: False
        then have c: "\<not> code c < 32" by simp
        show ?thesis
        proof (cases "rune_len (c # cs) = 0")
          case True
          with 2(6) q False big c have "prepend (encode_rune RuneError) (unquote cs) = Some (x, t)"
            by (simp add: unquote.simps)
          with 2(4) [OF q c False big True] show ?thesis by (auto dest!: prepend_SomeD)
        next
          case nz: False
          with 2(6) q False big c
          have "prepend (take (rune_len (c # cs)) (c # cs)) (unquote (drop (rune_len (c # cs)) (c # cs))) = Some (x, t)"
            by (simp only: unquote.simps if_False)
          then obtain z where "unquote (drop (rune_len (c # cs)) (c # cs)) = Some (z, t)"
            by (auto dest!: prepend_SomeD)
          from 2(5) [OF q c False big nz this] show ?thesis by simp
        qed
      qed
    qed
  qed
qed (simp add: unquote.simps)

text \<open>
  Values, members after the opening brace and elements after the opening bracket, with \<open>d\<close> levels of
  nesting left. A value is shorter than what it is read from, so the test of the length, there for
  termination, never fails (\<open>parse_shorter\<close>).
\<close>

function parse_value :: "nat \<Rightarrow> string \<Rightarrow> (jval \<times> string) option"
  and parse_members :: "nat \<Rightarrow> string \<Rightarrow> ((string \<times> jval) list \<times> string) option"
  and parse_elems :: "nat \<Rightarrow> string \<Rightarrow> (jval list \<times> string) option" where
  "parse_value d s =
     (case skip_ws s of
        [] \<Rightarrow> None
      | c # cs \<Rightarrow>
          if c = CHR 34 then map_option (apfst VStr) (unquote cs)
          else if c = CHR ''{'' then
            (if d = 0 then None
             else case expect (CHR ''}'') cs of
                    Some t \<Rightarrow> Some (VObj [], t)
                  | None \<Rightarrow> map_option (apfst VObj) (parse_members (d - 1) cs))
          else if c = CHR ''['' then
            (if d = 0 then None
             else case expect (CHR '']'') cs of
                    Some t \<Rightarrow> Some (VArr [], t)
                  | None \<Rightarrow> map_option (apfst VArr) (parse_elems (d - 1) cs))
          else if has_prefix ''true'' (c # cs) then Some (VBool True, drop 4 (c # cs))
          else if has_prefix ''false'' (c # cs) then Some (VBool False, drop 5 (c # cs))
          else if has_prefix ''null'' (c # cs) then Some (VNull, drop 4 (c # cs))
          else map_option (apfst VNum) (parse_num (c # cs)))"
| "parse_members d s =
     (case expect (CHR 34) s of
        None \<Rightarrow> None
      | Some s1 \<Rightarrow>
          (case unquote s1 of
             None \<Rightarrow> None
           | Some (k, s2) \<Rightarrow>
               (case expect (CHR '':'') s2 of
                  None \<Rightarrow> None
                | Some s3 \<Rightarrow>
                    (case parse_value d s3 of
                       None \<Rightarrow> None
                     | Some (v, s4) \<Rightarrow>
                         if length s4 < length s then
                           (case expect (CHR ''}'') s4 of
                              Some s5 \<Rightarrow> Some ([(k, v)], s5)
                            | None \<Rightarrow>
                                (case expect (CHR '','') s4 of
                                   Some s5 \<Rightarrow> map_option (apfst ((#) (k, v))) (parse_members d s5)
                                 | None \<Rightarrow> None))
                         else None))))"
| "parse_elems d s =
     (case parse_value d s of
        None \<Rightarrow> None
      | Some (v, s4) \<Rightarrow>
          if length s4 < length s then
            (case expect (CHR '']'') s4 of
               Some s5 \<Rightarrow> Some ([v], s5)
             | None \<Rightarrow>
                 (case expect (CHR '','') s4 of
                    Some s5 \<Rightarrow> map_option (apfst ((#) v)) (parse_elems d s5)
                  | None \<Rightarrow> None))
          else None)"
  by pat_completeness auto
termination
proof (relation "measure (case_sum (\<lambda>p. 2 * length (snd p))
    (case_sum (\<lambda>p. 2 * length (snd p) + 1) (\<lambda>p. 2 * length (snd p) + 1)))", goal_cases)
  case 1
  then show ?case by simp
next
  case (2 d s c cs)
  then show ?case using skip_ws_length [of s] by simp
next
  case (3 d s c cs)
  then show ?case using skip_ws_length [of s] by simp
next
  case (4 d s s1 p k s2 s3)
  then show ?case using expect_length [of "CHR 34" s s1] unquote_length [of s1] expect_length [of "CHR '':''" s2 s3] by auto
next
  case (5 d s s1 p k s2 s3 r v s4 s5)
  then show ?case using expect_length [of "CHR '',''" s4 s5] by auto
next
  case (6 d s)
  then show ?case by simp
next
  case (7 d s p v s4 s5)
  then show ?case using expect_length [of "CHR '',''" s4 s5] by auto
qed

declare parse_value.simps [simp del] parse_members.simps [simp del] parse_elems.simps [simp del]

lemma digits1_length: "digits1 pre s = Some (x, t) \<Longrightarrow> length t < length s"
proof -
  assume "digits1 pre s = Some (x, t)"
  then have "takeWhile is_digit s \<noteq> []" "t = dropWhile is_digit s"
    by (auto simp: digits1_def Let_def split: if_splits)
  moreover have "length s = length (takeWhile is_digit s) + length (dropWhile is_digit s)"
    by (metis length_append takeWhile_dropWhile_id)
  ultimately show ?thesis by simp
qed

lemma parse_frac_length: "parse_frac s = Some (x, t) \<Longrightarrow> length t \<le> length s"
  by (auto simp: parse_frac_def split: list.splits if_splits dest!: digits1_length)

lemma parse_exp_length: "parse_exp s = Some (x, t) \<Longrightarrow> length t \<le> length s"
  by (auto simp: parse_exp_def split: list.splits if_splits dest!: digits1_length)

lemma parse_num_length:
  assumes "parse_num s = Some (x, t)"
  shows "length t < length s"
proof -
  obtain sg s1 where s1: "(case s of c # t \<Rightarrow> if c = CHR ''-'' then ([c], t) else ([], s) | [] \<Rightarrow> ([], s)) = (sg, s1)"
    by (rule prod.exhaust)
  then have len: "length s1 \<le> length s" by (auto split: list.splits if_splits)
  from assms obtain i s2 f s3 e where
    "(case s1 of [] \<Rightarrow> None | c # t \<Rightarrow> if c = CHR ''0'' then Some ([c], t) else digits1 [] s1) = Some (i, s2)"
    "parse_frac s2 = Some (f, s3)" "parse_exp s3 = Some (e, t)"
    unfolding parse_num_def s1 by (auto simp: Option.bind_eq_Some_conv)
  moreover from this(1) have "length s2 < length s1"
    by (auto split: list.splits if_splits dest!: digits1_length)
  ultimately show ?thesis using parse_frac_length parse_exp_length len by fastforce
qed

text \<open>A value consumes something; so do members and elements.\<close>

lemma parse_shorter:
  "parse_value d s = Some (v, t) \<Longrightarrow> length t < length s"
  "parse_members d s = Some (ms, t) \<Longrightarrow> length t < length s"
  "parse_elems d s = Some (vs, t) \<Longrightarrow> length t < length s"
proof (induction d s and d s and d s arbitrary: v t and ms t and vs t
    rule: parse_value_parse_members_parse_elems.induct)
  case (1 d s)
  from 1(3) obtain c cs where s: "skip_ws s = c # cs"
    by (cases "skip_ws s") (simp_all add: parse_value.simps)
  then have len: "length cs < length s" using skip_ws_length [of s] by simp
  note v = 1(3) [unfolded parse_value.simps [of d s] s list.case]
  have m: "parse_members (d - Suc 0) cs = Some (a, t) \<Longrightarrow> length t < length cs"
    if "c = CHR ''{''" "0 < d" "expect (CHR ''}'') cs = None" for a
    using 1(1) [OF s, of a t] that by simp
  have e: "parse_elems (d - Suc 0) cs = Some (a, t) \<Longrightarrow> length t < length cs"
    if "c = CHR ''[''" "0 < d" "expect (CHR '']'') cs = None" for a
    using 1(2) [OF s, of a t] that by simp
  from v show ?case
    by (auto split: if_splits option.splits dest!: unquote_length expect_length parse_num_length m e)
      (use len in auto)
next
  case (2 d s)
  from 2(3) obtain s1 k s2 s3 v1 s4 where
    f: "expect (CHR 34) s = Some s1" "unquote s1 = Some (k, s2)" "expect (CHR '':'') s2 = Some s3"
      "parse_value d s3 = Some (v1, s4)" "length s4 < length s"
    and r: "expect (CHR ''}'') s4 = Some t \<or> expect (CHR ''}'') s4 = None
      \<and> (\<exists>s5 z. expect (CHR '','') s4 = Some s5 \<and> parse_members d s5 = Some (z, t))"
    by (auto simp: parse_members.simps [of d s] split: if_splits option.splits)
  from r show ?case
  proof (elim disjE conjE exE)
    fix s5 z
    assume "expect (CHR ''}'') s4 = None" "expect (CHR '','') s4 = Some s5" "parse_members d s5 = Some (z, t)"
    moreover from this have "length t < length s5" using 2(2) [OF f(1,2) refl f(3,4) refl f(5)] by blast
    ultimately show ?case using expect_length [of "CHR '',''" s4 s5] f(5) by simp
  qed (use expect_length [of "CHR ''}''" s4 t] f(5) in simp)
next
  case (3 d s)
  from 3(3) obtain v1 s4 where f: "parse_value d s = Some (v1, s4)" "length s4 < length s"
    and r: "expect (CHR '']'') s4 = Some t \<or> expect (CHR '']'') s4 = None
      \<and> (\<exists>s5 z. expect (CHR '','') s4 = Some s5 \<and> parse_elems d s5 = Some (z, t))"
    by (auto simp: parse_elems.simps [of d s] split: if_splits option.splits)
  from r show ?case
  proof (elim disjE conjE exE)
    fix s5 z
    assume "expect (CHR '']'') s4 = None" "expect (CHR '','') s4 = Some s5" "parse_elems d s5 = Some (z, t)"
    moreover from this have "length t < length s5" using 3(2) [OF f(1) refl f(2)] by blast
    ultimately show ?case using expect_length [of "CHR '',''" s4 s5] f(2) by simp
  qed (use expect_length [of "CHR '']''" s4 t] f(2) in simp)
qed

subsection \<open>Maps of strings\<close>

definition parse_text :: "string \<Rightarrow> jval option" where
  "parse_text s =
     (case parse_value 10000 s of
        Some (v, t) \<Rightarrow> if skip_ws t = [] then Some v else None
      | None \<Rightarrow> None)"

text \<open>The element of a map that a JSON value is decoded to: null leaves the zero value.\<close>

fun string_elem :: "jval \<Rightarrow> string option" where
  "string_elem (VStr s) = Some s"
| "string_elem VNull = Some []"
| "string_elem v = None"

definition UnmarshalHeaders :: "string \<Rightarrow> string + header_map option" where
  "UnmarshalHeaders s =
     (case parse_text s of
        Some VNull \<Rightarrow> Inr None
      | Some (VObj ms) \<Rightarrow>
          if list_all (\<lambda>m. string_elem (snd m) \<noteq> None) ms
          then Inr (Some (foldl (\<lambda>h m. h(fst m := string_elem (snd m))) Map.empty ms))
          else Inl ''cannot unmarshal''
      | Some v \<Rightarrow> Inl ''cannot unmarshal''
      | None \<Rightarrow> Inl ''syntax error'')"

fun json_members :: "(string \<times> string) list \<Rightarrow> string" where
  "json_members [] = []"
| "json_members [(k, v)] = json_string k @ CHR '':'' # json_string v"
| "json_members ((k, v) # m # ms) = json_string k @ CHR '':'' # json_string v @ CHR '','' # json_members (m # ms)"

definition header_list :: "header_map \<Rightarrow> (string \<times> string) list" where
  "header_list h = map (\<lambda>k. (k, the (h k))) (sorted_list_of_set (dom h))"

text \<open>Keys in the order of their bytes; strings always marshal.\<close>

definition MarshalHeaders :: "header_map \<Rightarrow> string + string" where
  "MarshalHeaders h = Inr (CHR ''{'' # json_members (header_list h) @ ''}'')"

text \<open>A map that a Go program can have, of UTF-8 strings.\<close>

definition utf8_headers :: "header_map \<Rightarrow> bool" where
  "utf8_headers h \<longleftrightarrow> finite (dom h) \<and> (\<forall>k v. h k = Some v \<longrightarrow> utf8 k \<and> utf8 v)"

lemma utf8_headers_simps [simp]:
  "utf8_headers Map.empty"
  "utf8_headers h \<Longrightarrow> utf8 k \<Longrightarrow> utf8 v \<Longrightarrow> utf8_headers (h(k \<mapsto> v))"
  by (auto simp: utf8_headers_def)

lemma skip_ws_plain: "\<not> is_space c \<Longrightarrow> skip_ws (c # s) = c # s"
  by (simp add: skip_ws_def)

lemma expect_plain: "\<not> is_space x \<Longrightarrow> expect c (x # s) = (if x = c then Some s else None)"
  by (simp add: expect_def skip_ws_plain)

lemma json_marks: "\<not> is_space (CHR 34)" "\<not> is_space (CHR ''{'')" "\<not> is_space (CHR ''}'')" "\<not> is_space (CHR '','')"
  "\<not> is_space (CHR '':'')"
  by (simp_all add: is_space_def)

lemma parse_string: "utf8 v \<Longrightarrow> parse_value d (json_string v @ t) = Some (VStr v, t)"
  by (simp add: json_string_def parse_value.simps skip_ws_plain json_marks unquote_json_chars)

text \<open>One member, whatever follows it.\<close>

lemma parse_member:
  assumes "utf8 k" "utf8 v"
  shows "parse_members d (json_string k @ CHR '':'' # json_string v @ CHR ''}'' # t) = Some ([(k, VStr v)], t)"
    and "parse_members d (json_string k @ CHR '':'' # json_string v @ CHR '','' # t)
      = map_option (apfst ((#) (k, VStr v))) (parse_members d t)"
proof -
  have "expect (CHR 34) (json_string k @ u) = Some (json_chars k @ CHR 34 # u)" for u
    by (simp add: json_string_def expect_plain json_marks)
  moreover have "length t < length (json_string k @ CHR '':'' # json_string v @ c # t)" for c by simp
  ultimately show
    "parse_members d (json_string k @ CHR '':'' # json_string v @ CHR ''}'' # t) = Some ([(k, VStr v)], t)"
    "parse_members d (json_string k @ CHR '':'' # json_string v @ CHR '','' # t)
      = map_option (apfst ((#) (k, VStr v))) (parse_members d t)"
    using assms
    by (simp_all add: parse_members.simps unquote_json_chars expect_plain json_marks parse_string)
qed

lemma parse_json_members:
  "ms \<noteq> [] \<Longrightarrow> list_all (\<lambda>m. utf8 (fst m) \<and> utf8 (snd m)) ms \<Longrightarrow>
     parse_members d (json_members ms @ CHR ''}'' # t) = Some (map (apsnd VStr) ms, t)"
  by (induction ms rule: json_members.induct) (auto simp: parse_member)

lemma json_members_head: "ms \<noteq> [] \<Longrightarrow> \<exists>t. json_members ms = CHR 34 # t"
  by (induction ms rule: json_members.induct) (auto simp: json_string_def)

lemma parse_object:
  assumes "list_all (\<lambda>m. utf8 (fst m) \<and> utf8 (snd m)) ms"
  shows "parse_text (CHR ''{'' # json_members ms @ ''}'') = Some (VObj (map (apsnd VStr) ms))"
proof (cases "ms = []")
  case True
  then show ?thesis
    by (simp add: parse_text_def parse_value.simps skip_ws_plain json_marks expect_plain) (simp add: skip_ws_def)
next
  case False
  then obtain u where u: "json_members ms = CHR 34 # u" using json_members_head by blast
  have "expect (CHR ''}'') (json_members ms @ ''}'') = None" by (simp add: u expect_plain json_marks)
  with parse_json_members [OF False assms, of 9999 "[]"] show ?thesis
    by (simp add: parse_text_def parse_value.simps skip_ws_plain json_marks) (simp add: skip_ws_def)
qed

lemma foldl_headers:
  "foldl (\<lambda>h m. h(fst m := string_elem (snd m))) h0 (map (apsnd VStr) ms) k
     = (case map_of (rev ms) k of Some v \<Rightarrow> Some v | None \<Rightarrow> h0 k)"
  by (induction ms arbitrary: h0) (auto simp: map_add_def split: option.splits)

lemma map_of_rev_distinct: "distinct (map fst xs) \<Longrightarrow> map_of (rev xs) = map_of xs"
proof (rule ext)
  fix k assume d: "distinct (map fst xs)"
  then have "distinct (map fst (rev xs))" by (simp flip: rev_map)
  with d have "map_of (rev xs) k = Some v \<longleftrightarrow> map_of xs k = Some v" for v
    by (simp add: map_of_eq_Some_iff)
  then show "map_of (rev xs) k = map_of xs k" by (cases "map_of xs k") (auto intro: option.exhaust)
qed

text \<open>Headers come back.\<close>

lemma headers_roundtrip:
  assumes "utf8_headers h"
  shows "\<exists>t. MarshalHeaders h = Inr t \<and> t \<noteq> [] \<and> UnmarshalHeaders t = Inr (Some h)"
proof -
  have fin: "finite (dom h)" using assms by (simp add: utf8_headers_def)
  have "list_all (\<lambda>m. utf8 (fst m) \<and> utf8 (snd m)) (header_list h)"
    using assms fin by (auto simp: header_list_def list_all_iff utf8_headers_def)
  note p = parse_object [OF this]
  have "distinct (map fst (header_list h))" by (simp add: header_list_def comp_def)
  then have "map_of (rev (header_list h)) = map_of (header_list h)" by (simp add: map_of_rev_distinct)
  moreover have "map_of (header_list h) k = h k" for k
    using fin by (cases "k \<in> dom h") (auto simp: header_list_def map_of_map_keys)
  ultimately have "foldl (\<lambda>h m. h(fst m := string_elem (snd m))) Map.empty (map (apsnd VStr) (header_list h)) = h"
    by (intro ext) (simp add: foldl_headers split: option.split)
  with p show ?thesis by (simp add: MarshalHeaders_def UnmarshalHeaders_def list_all_iff)
qed

end
