(* ===== verification/RedisStore.thy ===== *)
theory RedisStore
  imports TickStore JsonMap "HOL-Library.Multiset" "HOL-Library.Char_ord" "HOL-Library.List_Lexorder" "HOL-Library.Product_Lexorder"
begin

text \<open>
  \<open>internal/store/redis.go\<close>: the Redis implementation of \<open>Store\<close>. Redis itself and go-redis are not
  part of the repository: a client is a parameter \<open>exec\<close> that sends a list of commands, one
  command or a MULTI/EXEC pipeline, and returns the replies or an error. What the code relies on
  is the locale \<open>redis_service\<close>: a call without error has had the documented effect and replies of
  its commands, and a call with an error had that whole effect or none. The documented effects
  are \<open>redis_apply\<close>, over hashes and score-ordered sets.
\<close>

subsection \<open>Redis commands\<close>

datatype rcmd =
    HSET string "(string \<times> string) list"
  | HGETALL string
  | DEL string
  | ZADD string int string
  | ZREM string string
  | ZRANGEBYSCORE string string int
  | PING

datatype rreply =
    RInt
  | RHash "(string \<times> string) list"
  | RList "string list"
  | RErr

record redis_db =
  hashes :: "string \<Rightarrow> (string \<times> string) list"
  zsets :: "string \<Rightarrow> (int \<times> string) list"

definition zrem :: "string \<Rightarrow> (int \<times> string) list \<Rightarrow> (int \<times> string) list" where
  "zrem m z = filter (\<lambda>p. snd p \<noteq> m) z"

definition zadd :: "int \<Rightarrow> string \<Rightarrow> (int \<times> string) list \<Rightarrow> (int \<times> string) list" where
  "zadd sc m z = insort (sc, m) (zrem m z)"

text \<open>
  \<open>ZRANGEBYSCORE key -inf max LIMIT 0 n\<close>: members in the order of score, then name; the bound is
  read as a double; without a positive \<open>n\<close> there is no limit.
\<close>

definition zrange :: "string \<Rightarrow> int \<Rightarrow> (int \<times> string) list \<Rightarrow> rreply" where
  "zrange mx n z =
     (case ParseInt mx of
        Inl _ \<Rightarrow> RErr
      | Inr m \<Rightarrow>
          let hits = map snd (filter (\<lambda>p. fst p \<le> score m) z)
          in RList (if 0 < n then take (nat n) hits else hits))"

fun redis_apply :: "rcmd \<Rightarrow> redis_db \<Rightarrow> rreply \<times> redis_db" where
  "redis_apply (HSET k fs) d = (RInt, d\<lparr>hashes := (hashes d)(k := put_all fs (hashes d k))\<rparr>)"
| "redis_apply (HGETALL k) d = (RHash (hashes d k), d)"
| "redis_apply (DEL k) d = (RInt, d\<lparr>hashes := (hashes d)(k := []), zsets := (zsets d)(k := [])\<rparr>)"
| "redis_apply (ZADD k sc m) d = (RInt, d\<lparr>zsets := (zsets d)(k := zadd sc m (zsets d k))\<rparr>)"
| "redis_apply (ZREM k m) d = (RInt, d\<lparr>zsets := (zsets d)(k := zrem m (zsets d k))\<rparr>)"
| "redis_apply (ZRANGEBYSCORE k mx n) d = (zrange mx n (zsets d k), d)"
| "redis_apply PING d = (RInt, d)"

fun redis_run :: "rcmd list \<Rightarrow> redis_db \<Rightarrow> rreply list \<times> redis_db" where
  "redis_run [] d = ([], d)"
| "redis_run (c # cs) d =
     (let (r, d1) = redis_apply c d; (rs, d2) = redis_run cs d1 in (r # rs, d2))"

type_synonym 's redis_client = "rcmd list \<Rightarrow> 's \<Rightarrow> (string + rreply list) \<times> 's"

locale redis_service =
  fixes exec :: "'s redis_client"
    and db :: "'s \<Rightarrow> redis_db"
  assumes exec_ok: "exec cs s = (Inr rs, s') \<Longrightarrow> redis_run cs (db s) = (rs, db s')"
    and exec_err: "exec cs s = (Inl er, s') \<Longrightarrow> db s' = db s \<or> db s' = snd (redis_run cs (db s))"

subsection \<open>Serialization\<close>

text \<open>\<open>serializeJob\<close>; the order of the fields is that of the literal, then of the additions.\<close>

definition serializeJob :: "golib \<Rightarrow> Job \<Rightarrow> store_error + (string \<times> string) list" where
  "serializeJob lib job =
     (let data =
        [(''id'', ID job), (''type'', Type job), (''due_at_ms'', FormatInt (DueAtMs job)),
         (''attempt'', FormatInt (Attempt job)), (''max_attempts'', FormatInt (MaxAttempts job)),
         (''backoff_base_ms'', FormatInt (BackoffBaseMs job)), (''url'', URL job),
         (''method'', Method job), (''timeout_ms'', FormatInt (TimeoutMs job)),
         (''created_at_ms'', FormatInt (CreatedAtMs job)),
         (''updated_at_ms'', FormatInt (UpdatedAtMs job)), (''status'', Status job)];
        data = (if 0 < sint (IntervalMs job)
                then data @ [(''interval_ms'', FormatInt (IntervalMs job))] else data)
      in sbind (case Headers job of
                  None \<Rightarrow> Inr data
                | Some h \<Rightarrow> map_err (MarshalFailed ''failed to marshal headers'')
                    (sbind (MarshalHeaders h) (\<lambda>t. Inr (data @ [(''headers_json'', t)]))))
         (\<lambda>data. sbind (case Body job of
                  None \<Rightarrow> Inr data
                | Some b \<Rightarrow> map_err (MarshalFailed ''failed to marshal body'')
                    (sbind (marshal_body lib b) (\<lambda>t. Inr (data @ [(''body_json'', t)]))))
         (\<lambda>data. let
             data = (if LastError job \<noteq> [] then data @ [(''last_error'', LastError job)] else data);
             data = (if LastHTTPCode job \<noteq> 0
                     then data @ [(''last_http_code'', FormatInt (LastHTTPCode job))] else data)
           in Inr data)))"

definition read_i64 :: "string \<Rightarrow> (string \<times> string) list \<Rightarrow> store_error + i64" where
  "read_i64 name data = map_err (InvalidField name) (ParseInt (field data name))"

definition read_int :: "string \<Rightarrow> (string \<times> string) list \<Rightarrow> store_error + i64" where
  "read_int name data = map_err (InvalidField name) (Atoi (field data name))"

definition read_opt :: "string \<Rightarrow> (string \<times> string) list \<Rightarrow> (string \<Rightarrow> store_error + 'a) \<Rightarrow> 'a \<Rightarrow> store_error + 'a" where
  "read_opt name data parse zero =
     (if field data name \<noteq> [] then parse (field data name) else Inr zero)"

definition deserializeJob :: "golib \<Rightarrow> (string \<times> string) list \<Rightarrow> store_error + Job" where
  "deserializeJob lib data =
     sbind (read_i64 ''due_at_ms'' data) (\<lambda>dueAtMs.
     sbind (read_int ''attempt'' data) (\<lambda>attempt.
     sbind (read_int ''max_attempts'' data) (\<lambda>maxAttempts.
     sbind (read_i64 ''backoff_base_ms'' data) (\<lambda>backoffBaseMs.
     sbind (read_int ''timeout_ms'' data) (\<lambda>timeoutMs.
     sbind (read_i64 ''created_at_ms'' data) (\<lambda>createdAtMs.
     sbind (read_i64 ''updated_at_ms'' data) (\<lambda>updatedAtMs.
     sbind (read_opt ''interval_ms'' data
              (\<lambda>t. map_err (InvalidField ''interval_ms'') (ParseInt t)) 0) (\<lambda>intervalMs.
     sbind (read_opt ''headers_json'' data
              (\<lambda>t. map_err (InvalidJson ''headers_json'') (UnmarshalHeaders t)) None) (\<lambda>headers.
     sbind (read_opt ''body_json'' data
              (\<lambda>t. map_err (InvalidJson ''body_json'') (unmarshal_body lib t)) None) (\<lambda>body.
     sbind (read_opt ''last_http_code'' data
              (\<lambda>t. map_err (InvalidField ''last_http_code'') (Atoi t)) 0) (\<lambda>lastHTTPCode.
     Inr \<lparr>ID = field data ''id'', Type = field data ''type'', DueAtMs = dueAtMs,
          IntervalMs = intervalMs, Attempt = attempt, MaxAttempts = maxAttempts,
          BackoffBaseMs = backoffBaseMs, URL = field data ''url'', Method = field data ''method'',
          Headers = headers, Body = body, TimeoutMs = timeoutMs, CreatedAtMs = createdAtMs,
          UpdatedAtMs = updatedAtMs, LastError = field data ''last_error'',
          LastHTTPCode = lastHTTPCode, Status = field data ''status''\<rparr>)))))))))))"

subsection \<open>The store\<close>

record 's RedisStore =
  client :: "'s redis_client"
  namespace :: string

definition schedulesKey :: "'s RedisStore \<Rightarrow> string" where
  "schedulesKey rs = namespace rs @ '':schedules''"

definition jobKey :: "'s RedisStore \<Rightarrow> string \<Rightarrow> string" where
  "jobKey rs jobID = namespace rs @ '':job:'' @ jobID"

text \<open>A call whose replies are not read: the error wrapped, or nothing.\<close>

definition run_cmds :: "'s RedisStore \<Rightarrow> string \<Rightarrow> rcmd list \<Rightarrow> 's \<Rightarrow> store_error option \<times> 's" where
  "run_cmds rs what cmds s =
     (case client rs cmds s of
        (Inl e, s') \<Rightarrow> (Some (RedisFailed what e), s')
      | (Inr _, s') \<Rightarrow> (None, s'))"

definition RedisStore_CreateJob :: "golib \<Rightarrow> 's RedisStore \<Rightarrow> Job \<Rightarrow> 's \<Rightarrow> store_error option \<times> 's" where
  "RedisStore_CreateJob lib rs job s =
     (case serializeJob lib job of
        Inl e \<Rightarrow> (Some e, s)
      | Inr jobData \<Rightarrow>
          run_cmds rs ''failed to create job''
            [HSET (jobKey rs (ID job)) jobData,
             ZADD (schedulesKey rs) (score (DueAtMs job)) (ID job)] s)"

definition RedisStore_GetJob :: "golib \<Rightarrow> 's RedisStore \<Rightarrow> string \<Rightarrow> 's \<Rightarrow> (store_error + Job) \<times> 's" where
  "RedisStore_GetJob lib rs jobID s =
     (case client rs [HGETALL (jobKey rs jobID)] s of
        (Inl e, s') \<Rightarrow> (Inl (RedisFailed ''failed to get job'' e), s')
      | (Inr [RHash data], s') \<Rightarrow>
          (if data = [] then Inl ErrJobNotFound else deserializeJob lib data, s')
      | (Inr _, s') \<Rightarrow> (Inl (RedisFailed ''failed to get job'' ''unexpected reply''), s'))"

definition RedisStore_UpdateJob :: "golib \<Rightarrow> 's RedisStore \<Rightarrow> Job \<Rightarrow> 's \<Rightarrow> store_error option \<times> 's" where
  "RedisStore_UpdateJob lib rs job s =
     (case serializeJob lib job of
        Inl e \<Rightarrow> (Some e, s)
      | Inr jobData \<Rightarrow>
          run_cmds rs ''failed to update job'' [HSET (jobKey rs (ID job)) jobData] s)"

definition RedisStore_DeleteJob :: "'s RedisStore \<Rightarrow> string \<Rightarrow> 's \<Rightarrow> store_error option \<times> 's" where
  "RedisStore_DeleteJob rs jobID s =
     run_cmds rs ''failed to delete job''
       [DEL (jobKey rs jobID), ZREM (schedulesKey rs) jobID] s"

definition RedisStore_GetDueJobs ::
    "'s RedisStore \<Rightarrow> i64 \<Rightarrow> i64 \<Rightarrow> 's \<Rightarrow> (store_error + string list) \<times> 's" where
  "RedisStore_GetDueJobs rs nowMs limit s =
     (case client rs [ZRANGEBYSCORE (schedulesKey rs) (FormatInt nowMs) (sint limit)] s of
        (Inl e, s') \<Rightarrow> (Inl (RedisFailed ''failed to get due jobs'' e), s')
      | (Inr [RList ids], s') \<Rightarrow> (Inr ids, s')
      | (Inr _, s') \<Rightarrow> (Inl (RedisFailed ''failed to get due jobs'' ''unexpected reply''), s'))"

definition RedisStore_RemoveFromSchedule :: "'s RedisStore \<Rightarrow> string \<Rightarrow> 's \<Rightarrow> store_error option \<times> 's" where
  "RedisStore_RemoveFromSchedule rs jobID s =
     run_cmds rs ''failed to remove from schedule'' [ZREM (schedulesKey rs) jobID] s"

definition RedisStore_AddToSchedule :: "'s RedisStore \<Rightarrow> string \<Rightarrow> i64 \<Rightarrow> 's \<Rightarrow> store_error option \<times> 's" where
  "RedisStore_AddToSchedule rs jobID dueAtMs s =
     run_cmds rs ''failed to add to schedule'' [ZADD (schedulesKey rs) (score dueAtMs) jobID] s"

definition RedisStore_Ping :: "'s RedisStore \<Rightarrow> 's \<Rightarrow> store_error option \<times> 's" where
  "RedisStore_Ping rs s =
     run_cmds rs [] [PING] s"

text \<open>\<open>*RedisStore\<close> as a \<open>Store\<close>.\<close>

definition redis_Store :: "golib \<Rightarrow> 's RedisStore \<Rightarrow> 's Store" where
  "redis_Store lib rs = \<lparr>
     CreateJob = RedisStore_CreateJob lib rs, GetJob = RedisStore_GetJob lib rs,
     UpdateJob = RedisStore_UpdateJob lib rs, DeleteJob = RedisStore_DeleteJob rs,
     GetDueJobs = RedisStore_GetDueJobs rs, RemoveFromSchedule = RedisStore_RemoveFromSchedule rs,
     AddToSchedule = RedisStore_AddToSchedule rs, Ping = RedisStore_Ping rs\<rparr>"

subsection \<open>Sorted sets\<close>

definition zscore :: "(int \<times> string) list \<Rightarrow> string \<Rightarrow> int option" where
  "zscore z m = map_of (map prod.swap z) m"

definition zset_wf :: "(int \<times> string) list \<Rightarrow> bool" where
  "zset_wf z \<longleftrightarrow> distinct (map snd z) \<and> sorted z"

lemma zscore_Some_iff: "zset_wf z \<Longrightarrow> zscore z m = Some sc \<longleftrightarrow> (sc, m) \<in> set z"
  unfolding zscore_def zset_wf_def
  by (subst map_of_eq_Some_iff) (auto simp: comp_def)

lemma map_eqI_Some: "(\<And>x v. f x = Some v \<longleftrightarrow> g x = Some v) \<Longrightarrow> f = g"
proof
  fix x
  assume "\<And>x v. f x = Some v \<longleftrightarrow> g x = Some v"
  then show "f x = g x" by (cases "f x"; cases "g x") force+
qed

lemma zset_wf_zrem: "zset_wf z \<Longrightarrow> zset_wf (zrem m z)"
  by (simp add: zset_wf_def zrem_def sorted_wrt_filter distinct_map_filter)

lemma zset_wf_zadd: "zset_wf z \<Longrightarrow> zset_wf (zadd sc m z)"
proof -
  assume "zset_wf z"
  then have "zset_wf (zrem m z)" by (rule zset_wf_zrem)
  moreover have "m \<notin> set (map snd (zrem m z))" by (auto simp: zrem_def)
  moreover have "mset (map snd (zadd sc m z)) = mset (m # map snd (zrem m z))"
    by (simp add: zadd_def)
  then have "distinct (map snd (zadd sc m z)) = distinct (m # map snd (zrem m z))"
    by (rule mset_eq_imp_distinct_iff)
  ultimately show ?thesis by (simp add: zset_wf_def zadd_def sorted_insort)
qed

lemma zscore_zrem: "zset_wf z \<Longrightarrow> zscore (zrem m z) = (zscore z)(m := None)"
  by (rule map_eqI_Some) (auto simp: zscore_Some_iff zset_wf_zrem, auto simp: zrem_def)

lemma zscore_zadd: "zset_wf z \<Longrightarrow> zscore (zadd sc m z) = (zscore z)(m \<mapsto> sc)"
  by (rule map_eqI_Some)
    (auto simp: zscore_Some_iff zset_wf_zadd, auto simp: zadd_def zrem_def set_insort_key)

lemma zset_wf_Nil [simp]: "zset_wf []" "zscore [] = Map.empty"
  by (auto simp: zset_wf_def zscore_def)

subsection \<open>Reading what was written\<close>

text \<open>
  A job the JSON codec can carry: its headers, when not nil, are UTF-8 strings, as they are after
  the decoding of a request, and its body, when not nil, decodes to itself.
\<close>

definition storable :: "golib \<Rightarrow> Job \<Rightarrow> bool" where
  "storable lib j \<longleftrightarrow>
     (case Headers j of None \<Rightarrow> True
      | Some h \<Rightarrow> utf8_headers h)
     \<and> (case Body j of None \<Rightarrow> True
        | Some b \<Rightarrow> (case marshal_body lib b of Inl _ \<Rightarrow> False
                    | Inr t \<Rightarrow> t \<noteq> [] \<and> unmarshal_body lib t = Inr (Some b)))"

lemma storable_maps:
  assumes "storable lib j"
  shows "case Headers j of None \<Rightarrow> True
      | Some h \<Rightarrow> (case MarshalHeaders h of Inl _ \<Rightarrow> False
                  | Inr t \<Rightarrow> t \<noteq> [] \<and> UnmarshalHeaders t = Inr (Some h))"
    and "case Body j of None \<Rightarrow> True
      | Some b \<Rightarrow> (case marshal_body lib b of Inl _ \<Rightarrow> False
                  | Inr t \<Rightarrow> t \<noteq> [] \<and> unmarshal_body lib t = Inr (Some b))"
proof -
  have "\<exists>t. MarshalHeaders h = Inr t \<and> t \<noteq> [] \<and> UnmarshalHeaders t = Inr (Some h)" if "Headers j = Some h" for h
    using assms that by (intro headers_roundtrip) (simp add: storable_def)
  then show "case Headers j of None \<Rightarrow> True
      | Some h \<Rightarrow> (case MarshalHeaders h of Inl _ \<Rightarrow> False
                  | Inr t \<Rightarrow> t \<noteq> [] \<and> UnmarshalHeaders t = Inr (Some h))"
    by (cases "Headers j") auto
qed (use assms in \<open>simp add: storable_def\<close>)

text \<open>The serialized fields: the mandatory ones, then the optional ones that are present.\<close>

definition json_text :: "('m \<Rightarrow> string + string) \<Rightarrow> 'm option \<Rightarrow> string option" where
  "json_text enc m = Option.bind m (\<lambda>x. case enc x of Inl _ \<Rightarrow> None | Inr t \<Rightarrow> Some t)"

definition opt_field :: "string \<Rightarrow> string option \<Rightarrow> (string \<times> string) list" where
  "opt_field k v = (case v of None \<Rightarrow> [] | Some t \<Rightarrow> [(k, t)])"

definition base_fields :: "Job \<Rightarrow> (string \<times> string) list" where
  "base_fields job =
     [(''id'', ID job), (''type'', Type job), (''due_at_ms'', FormatInt (DueAtMs job)),
      (''attempt'', FormatInt (Attempt job)), (''max_attempts'', FormatInt (MaxAttempts job)),
      (''backoff_base_ms'', FormatInt (BackoffBaseMs job)), (''url'', URL job),
      (''method'', Method job), (''timeout_ms'', FormatInt (TimeoutMs job)),
      (''created_at_ms'', FormatInt (CreatedAtMs job)),
      (''updated_at_ms'', FormatInt (UpdatedAtMs job)), (''status'', Status job)]"

definition interval_text :: "Job \<Rightarrow> string option" where
  "interval_text j = (if 0 < sint (IntervalMs j) then Some (FormatInt (IntervalMs j)) else None)"

definition error_text :: "Job \<Rightarrow> string option" where
  "error_text j = (if LastError j \<noteq> [] then Some (LastError j) else None)"

definition http_code_text :: "Job \<Rightarrow> string option" where
  "http_code_text j = (if LastHTTPCode j \<noteq> 0 then Some (FormatInt (LastHTTPCode j)) else None)"

definition all_fields :: "golib \<Rightarrow> Job \<Rightarrow> (string \<times> string) list" where
  "all_fields lib j = base_fields j @ opt_field ''interval_ms'' (interval_text j)
     @ opt_field ''headers_json'' (json_text MarshalHeaders (Headers j))
     @ opt_field ''body_json'' (json_text (marshal_body lib) (Body j))
     @ opt_field ''last_error'' (error_text j) @ opt_field ''last_http_code'' (http_code_text j)"

lemma serializeJob_storable: "storable lib j \<Longrightarrow> serializeJob lib j = Inr (all_fields lib j)"
  using storable_maps [of lib j]
  by (cases "Headers j"; cases "Body j")
    (auto simp: serializeJob_def all_fields_def base_fields_def json_text_def Let_def
      opt_field_def interval_text_def error_text_def http_code_text_def split: sum.splits)

lemma opt_field_simps [simp]:
  "map_of (opt_field k v) x = (if x = k then v else None)"
  "distinct (map fst (opt_field k v))"
  "fst ` set (opt_field k v) = (if v = None then {} else {k})"
  by (auto simp: opt_field_def split: option.splits)

lemma all_fields_distinct: "distinct (map fst (all_fields lib j))"
  by (auto simp: all_fields_def base_fields_def)

lemma all_fields_not_Nil [simp]: "all_fields lib j \<noteq> []"
  by (simp add: all_fields_def base_fields_def)

lemma field_put_all:
  "field (put_all (all_fields lib j) h) k =
     (case map_of (all_fields lib j) k of None \<Rightarrow> field h k | Some v \<Rightarrow> v)"
  by (simp add: field_def map_of_put_all all_fields_distinct map_add_def split: option.splits)

lemma map_of_all_fields:
  "map_of (all_fields lib j) ''id'' = Some (ID j)"
  "map_of (all_fields lib j) ''type'' = Some (Type j)"
  "map_of (all_fields lib j) ''due_at_ms'' = Some (FormatInt (DueAtMs j))"
  "map_of (all_fields lib j) ''attempt'' = Some (FormatInt (Attempt j))"
  "map_of (all_fields lib j) ''max_attempts'' = Some (FormatInt (MaxAttempts j))"
  "map_of (all_fields lib j) ''backoff_base_ms'' = Some (FormatInt (BackoffBaseMs j))"
  "map_of (all_fields lib j) ''url'' = Some (URL j)"
  "map_of (all_fields lib j) ''method'' = Some (Method j)"
  "map_of (all_fields lib j) ''timeout_ms'' = Some (FormatInt (TimeoutMs j))"
  "map_of (all_fields lib j) ''created_at_ms'' = Some (FormatInt (CreatedAtMs j))"
  "map_of (all_fields lib j) ''updated_at_ms'' = Some (FormatInt (UpdatedAtMs j))"
  "map_of (all_fields lib j) ''status'' = Some (Status j)"
  "map_of (all_fields lib j) ''interval_ms'' = interval_text j"
  "map_of (all_fields lib j) ''headers_json'' = json_text MarshalHeaders (Headers j)"
  "map_of (all_fields lib j) ''body_json'' = json_text (marshal_body lib) (Body j)"
  "map_of (all_fields lib j) ''last_error'' = error_text j"
  "map_of (all_fields lib j) ''last_http_code'' = http_code_text j"
  by (simp_all add: all_fields_def base_fields_def map_add_def split: option.splits)

text \<open>The optional fields, read back over what the hash held before.\<close>

lemma read_opt_put_all:
  "read_opt k (put_all (all_fields lib j) h) parse zero =
     (case map_of (all_fields lib j) k of
        None \<Rightarrow> read_opt k h parse zero
      | Some v \<Rightarrow> if v \<noteq> [] then parse v else Inr zero)"
  by (simp add: read_opt_def field_put_all split: option.splits)

lemma read_opt_json:
  assumes "case m of None \<Rightarrow> True | Some x \<Rightarrow>
      (case enc x of Inl _ \<Rightarrow> False | Inr t \<Rightarrow> t \<noteq> [] \<and> parse t = Inr (Some x))"
  shows "(case json_text enc m of None \<Rightarrow> old
      | Some v \<Rightarrow> if v \<noteq> [] then map_err f (parse v) else Inr None)
    = (case m of None \<Rightarrow> old | Some x \<Rightarrow> Inr (Some x))"
  using assms by (auto simp: json_text_def split: option.splits sum.splits)

definition old_reads :: "golib \<Rightarrow> (string \<times> string) list \<Rightarrow> Job option \<Rightarrow> bool" where
  "old_reads lib h old \<longleftrightarrow>
     (case old of None \<Rightarrow> h = [] | Some k \<Rightarrow> deserializeJob lib h = Inr k)"

lemma old_reads_optional:
  assumes "old_reads lib h old"
  shows "read_opt ''interval_ms'' h (\<lambda>t. map_err (InvalidField ''interval_ms'') (ParseInt t)) 0
      = Inr (case old of None \<Rightarrow> 0 | Some k \<Rightarrow> IntervalMs k)"
    and "read_opt ''headers_json'' h
        (\<lambda>t. map_err (InvalidJson ''headers_json'') (UnmarshalHeaders t)) None
      = Inr (Option.bind old Headers)"
    and "read_opt ''body_json'' h
        (\<lambda>t. map_err (InvalidJson ''body_json'') (unmarshal_body lib t)) None
      = Inr (Option.bind old Body)"
    and "read_opt ''last_http_code'' h
        (\<lambda>t. map_err (InvalidField ''last_http_code'') (Atoi t)) 0
      = Inr (case old of None \<Rightarrow> 0 | Some k \<Rightarrow> LastHTTPCode k)"
    and "field h ''last_error'' = (case old of None \<Rightarrow> [] | Some k \<Rightarrow> LastError k)"
  using assms
  by (cases old;
      auto simp: old_reads_def read_opt_def field_def deserializeJob_def sbind_eq_Inr_iff)+

lemma deserialize_put_all:
  assumes "storable lib j" and "old_reads lib h old"
  shows "deserializeJob lib (put_all (all_fields lib j) h) = Inr (merged old j)"
proof -
  have opt_i: "read_opt ''interval_ms'' (put_all (all_fields lib j) h)
      (\<lambda>t. map_err (InvalidField ''interval_ms'') (ParseInt t)) 0 = Inr (IntervalMs (merged old j))"
    by (simp add: read_opt_put_all map_of_all_fields interval_text_def merged_def
        old_reads_optional [OF assms(2)])
  have opt_c: "read_opt ''last_http_code'' (put_all (all_fields lib j) h)
      (\<lambda>t. map_err (InvalidField ''last_http_code'') (Atoi t)) 0 = Inr (LastHTTPCode (merged old j))"
    by (simp add: read_opt_put_all map_of_all_fields http_code_text_def merged_def
        old_reads_optional [OF assms(2)])
  have opt_h: "read_opt ''headers_json'' (put_all (all_fields lib j) h)
      (\<lambda>t. map_err (InvalidJson ''headers_json'') (UnmarshalHeaders t)) None
      = Inr (Headers (merged old j))"
    using storable_maps [OF assms(1)]
    by (simp add: read_opt_put_all map_of_all_fields merged_def read_opt_json
        old_reads_optional [OF assms(2)] split: option.splits)
  have opt_b: "read_opt ''body_json'' (put_all (all_fields lib j) h)
      (\<lambda>t. map_err (InvalidJson ''body_json'') (unmarshal_body lib t)) None
      = Inr (Body (merged old j))"
    using storable_maps [OF assms(1)]
    by (simp add: read_opt_put_all map_of_all_fields merged_def read_opt_json
        old_reads_optional [OF assms(2)] split: option.splits)
  have err: "field (put_all (all_fields lib j) h) ''last_error'' = LastError (merged old j)"
    by (simp add: field_put_all map_of_all_fields error_text_def merged_def
        old_reads_optional [OF assms(2)])
  show ?thesis
    by (cases "merged old j")
      (use merged_simps [of old j] in \<open>simp add: deserializeJob_def read_i64_def read_int_def
        opt_i opt_c opt_h opt_b err [unfolded field_put_all map_of_all_fields] field_put_all map_of_all_fields\<close>)
qed

subsection \<open>The Redis store implements the interface\<close>

definition redis_look :: "golib \<Rightarrow> 's RedisStore \<Rightarrow> redis_db \<Rightarrow> string \<Rightarrow> store_error + Job" where
  "redis_look lib rs d i =
     (let data = hashes d (jobKey rs i)
      in if data = [] then Inl ErrJobNotFound else deserializeJob lib data)"

definition redis_due :: "'s RedisStore \<Rightarrow> redis_db \<Rightarrow> string \<Rightarrow> int option" where
  "redis_due rs d = zscore (zsets d (schedulesKey rs))"

definition db_wf :: "redis_db \<Rightarrow> bool" where
  "db_wf d \<longleftrightarrow> (\<forall>k. zset_wf (zsets d k))"

lemma db_wf_zset: "db_wf d \<Longrightarrow> zset_wf (zsets d k)"
  by (simp add: db_wf_def)

lemma keys_distinct [simp]:
  "jobKey rs i \<noteq> schedulesKey rs" "schedulesKey rs \<noteq> jobKey rs i"
  "jobKey rs i = jobKey rs k \<longleftrightarrow> i = k"
  by (simp_all add: jobKey_def schedulesKey_def)

lemma db_wf_redis_apply: "db_wf d \<Longrightarrow> db_wf (snd (redis_apply c d))"
  by (cases c) (auto simp: db_wf_def zset_wf_zadd zset_wf_zrem)

lemma db_wf_redis_run: "db_wf d \<Longrightarrow> db_wf (snd (redis_run cs d))"
proof (induction cs arbitrary: d)
  case (Cons c cs)
  then have "db_wf (snd (redis_run cs (snd (redis_apply c d))))" by (simp add: db_wf_redis_apply)
  then show ?case by (simp add: split_beta Let_def)
qed simp

lemmas view_defs = redis_look_def redis_due_def Let_def

lemma view_create:
  "db_wf d \<Longrightarrow> redis_due rs (snd (redis_run [HSET (jobKey rs i) fs, ZADD (schedulesKey rs) sc i] d))
     = (redis_due rs d)(i \<mapsto> sc)"
  "k \<noteq> i \<Longrightarrow> redis_look lib rs (snd (redis_run [HSET (jobKey rs i) fs, ZADD (schedulesKey rs) sc i] d)) k
     = redis_look lib rs d k"
  "hashes (snd (redis_run [HSET (jobKey rs i) fs, ZADD (schedulesKey rs) sc i] d)) (jobKey rs i)
     = put_all fs (hashes d (jobKey rs i))"
  by (simp_all add: view_defs db_wf_zset zscore_zadd)

lemma view_update:
  "redis_due rs (snd (redis_run [HSET (jobKey rs i) fs] d)) = redis_due rs d"
  "k \<noteq> i \<Longrightarrow> redis_look lib rs (snd (redis_run [HSET (jobKey rs i) fs] d)) k = redis_look lib rs d k"
  "hashes (snd (redis_run [HSET (jobKey rs i) fs] d)) (jobKey rs i) = put_all fs (hashes d (jobKey rs i))"
  by (simp_all add: view_defs)

lemma view_delete:
  "db_wf d \<Longrightarrow> redis_due rs (snd (redis_run [DEL (jobKey rs i), ZREM (schedulesKey rs) i] d))
     = (redis_due rs d)(i := None)"
  "redis_look lib rs (snd (redis_run [DEL (jobKey rs i), ZREM (schedulesKey rs) i] d))
     = (redis_look lib rs d)(i := Inl ErrJobNotFound)"
  by (auto simp: view_defs db_wf_zset zscore_zrem)

lemma view_remove:
  "db_wf d \<Longrightarrow> redis_due rs (snd (redis_run [ZREM (schedulesKey rs) i] d)) = (redis_due rs d)(i := None)"
  "redis_look lib rs (snd (redis_run [ZREM (schedulesKey rs) i] d)) = redis_look lib rs d"
  by (auto simp: view_defs db_wf_zset zscore_zrem)

lemma view_add:
  "db_wf d \<Longrightarrow> redis_due rs (snd (redis_run [ZADD (schedulesKey rs) sc i] d)) = (redis_due rs d)(i \<mapsto> sc)"
  "redis_look lib rs (snd (redis_run [ZADD (schedulesKey rs) sc i] d)) = redis_look lib rs d"
  by (auto simp: view_defs db_wf_zset zscore_zadd)

lemma view_ping: "snd (redis_run [PING] d) = d"
  by simp

lemmas views = view_create view_update view_delete view_remove view_add view_ping

declare redis_run.simps [simp del]

lemma deserializeJob_not_missing: "deserializeJob lib data \<noteq> Inl ErrJobNotFound"
  by (auto simp: deserializeJob_def sbind_eq_Inl_iff read_i64_def read_int_def read_opt_def map_err_def
      split: sum.splits if_splits)

lemma old_reads_look:
  "readable (redis_look lib rs d i) \<Longrightarrow>
     old_reads lib (hashes d (jobKey rs i)) (present (redis_look lib rs d i))"
  using deserializeJob_not_missing [of lib "hashes d (jobKey rs i)"]
  by (auto simp: old_reads_def redis_look_def Let_def readable_def present_def
      split: if_splits sum.splits option.splits)

text \<open>After the fields of a storable job are written, reading yields the job merged with the old one.\<close>

lemma look_after_write:
  assumes "storable lib j" and "readable (redis_look lib rs d (ID j))"
    and "hashes d' (jobKey rs (ID j)) = put_all (all_fields lib j) (hashes d (jobKey rs (ID j)))"
  shows "redis_look lib rs d' (ID j) = Inr (merged (present (redis_look lib rs d (ID j))) j)"
  using deserialize_put_all [OF assms(1) old_reads_look [OF assms(2)]] assms(3)
  by (simp add: redis_look_def [of lib rs d'] put_all_Nil_iff)

text \<open>The answer to the range query, as the contract of \<open>GetDueJobs\<close> states it.\<close>

lemma zrange_FormatInt:
  "zrange (FormatInt now) n z =
     RList (let hits = map snd (filter (\<lambda>p. fst p \<le> score now) z)
            in if 0 < n then take (nat n) hits else hits)"
  by (simp add: zrange_def Let_def)

locale redis_store = redis_service "client rs" db
  for rs :: "'s RedisStore" and db :: "'s \<Rightarrow> redis_db" +
  fixes lib :: golib
begin

lemma run_cmds_None: "run_cmds rs what cs s = (None, s') \<Longrightarrow> db s' = snd (redis_run cs (db s))"
  by (auto simp: run_cmds_def split: prod.splits sum.splits dest: exec_ok)

lemma run_cmds_Some:
  "run_cmds rs what cs s = (Some er, s') \<Longrightarrow> db s' = db s \<or> db s' = snd (redis_run cs (db s))"
  by (auto simp: run_cmds_def split: prod.splits sum.splits dest: exec_err)

lemma run_cmds_any:
  "run_cmds rs what cs s = (r, s') \<Longrightarrow> db s' = db s \<or> db s' = snd (redis_run cs (db s))"
  by (cases r) (auto dest: run_cmds_None run_cmds_Some)

lemma run_cmds_wf: "db_wf (db s) \<Longrightarrow> run_cmds rs what cs s = (r, s') \<Longrightarrow> db_wf (db s')"
  by (auto dest!: run_cmds_any intro: db_wf_redis_run)

text \<open>A read: the state is not changed, and a reply without error is the documented one.\<close>

lemma client_read:
  assumes "client rs [c] s = (r, s')" and "snd (redis_apply c (db s)) = db s"
  shows "db s' = db s" and "r = Inr rs' \<Longrightarrow> rs' = [fst (redis_apply c (db s))]"
  using assms exec_ok [of "[c]" s] exec_err [of "[c]" s]
  by (cases r; force simp: redis_run.simps split_beta Let_def)+

lemma GetJob_effect:
  assumes "RedisStore_GetJob lib rs i s = (r, s')"
  shows "db s' = db s" and "r = redis_look lib rs (db s) i \<or> (\<exists>er. r = Inl (RedisFailed ''failed to get job'' er))"
  using assms client_read [of "HGETALL (jobKey rs i)" s]
  by (auto simp: RedisStore_GetJob_def redis_look_def Let_def split: prod.splits sum.splits list.splits
      rreply.splits if_splits)

lemma GetDueJobs_effect:
  assumes "RedisStore_GetDueJobs rs now n s = (r, s')"
  shows "db s' = db s"
    and "r = Inr ids \<Longrightarrow> RList ids = zrange (FormatInt now) (sint n) (zsets (db s) (schedulesKey rs))"
  using assms client_read [of "ZRANGEBYSCORE (schedulesKey rs) (FormatInt now) (sint n)" s]
  by (auto simp: RedisStore_GetDueJobs_def split: prod.splits sum.splits list.splits
      rreply.splits if_splits)

lemma Ping_effect: "RedisStore_Ping rs s = (r, s') \<Longrightarrow> db s' = db s"
  by (auto simp: RedisStore_Ping_def views dest!: run_cmds_any)

end

text \<open>Facts about the hits of a range query over a well-formed sorted set.\<close>

lemma hits_distinct: "zset_wf z \<Longrightarrow> distinct (map snd (filter P z))"
  by (simp add: zset_wf_def distinct_map_filter)

lemma hits_scores:
  assumes "zset_wf z"
  shows "map (\<lambda>i. the (zscore z i)) (map snd (filter P z)) = map fst (filter P z)"
  by (auto simp flip: zscore_Some_iff [OF assms])

lemma hits_sorted: "zset_wf z \<Longrightarrow> sorted (map fst (filter P z))"
proof -
  assume "zset_wf z"
  then have "sorted (filter P z)" by (simp add: zset_wf_def sorted_wrt_filter)
  then show ?thesis by (simp add: sorted_map, rule sorted_wrt_mono_rel [rotated]) auto
qed

lemma sorted_take_drop:
  "sorted (map f xs) \<Longrightarrow> x \<in> set (take n xs) \<Longrightarrow> y \<in> set (drop n xs) \<Longrightarrow> f x \<le> f y"
  using sorted_append [of "map f (take n xs)" "map f (drop n xs)"]
  by (simp flip: map_append)

text \<open>The limit of a query, cut off a list sorted by \<open>f\<close>.\<close>

definition limited :: "int \<Rightarrow> 'a list \<Rightarrow> 'a list" where
  "limited n xs = (if 0 < n then take (nat n) xs else xs)"

lemma limited_complete:
  assumes "sorted (map f xs)" and "i \<in> set xs" and "i \<notin> set (limited n xs)"
  shows "0 < n \<and> length (limited n xs) = nat n \<and> (\<forall>k\<in>set (limited n xs). f k \<le> f i)"
proof -
  have n: "0 < n" using assms(2,3) by (auto simp: limited_def split: if_splits)
  have "set xs = set (take (nat n) xs) \<union> set (drop (nat n) xs)"
    by (simp flip: set_append)
  with assms(2,3) n have i: "i \<in> set (drop (nat n) xs)" by (auto simp: limited_def)
  then have "nat n < length xs" by (metis drop_all empty_iff list.set(1) not_le)
  with n sorted_take_drop [OF assms(1) _ i] show ?thesis by (simp add: limited_def)
qed

lemma limited_props:
  "set (limited n xs) \<subseteq> set xs" "distinct xs \<Longrightarrow> distinct (limited n xs)"
  "0 < n \<Longrightarrow> length (limited n xs) \<le> nat n"
  "sorted (map f xs) \<Longrightarrow> sorted (map f (limited n xs))"
  by (auto simp: limited_def dest: in_set_takeD) (metis sorted_wrt_take take_map)

lemma zrange_ids:
  assumes "RList ids = zrange (FormatInt now) n z"
  shows "ids = limited n (map snd (filter (\<lambda>p. fst p \<le> score now) z))"
  using assms by (simp add: zrange_FormatInt limited_def Let_def)

lemma due_ids:
  assumes wf: "zset_wf z" and ids: "RList ids = zrange (FormatInt now) n z"
  shows "distinct ids" and "\<forall>i\<in>set ids. \<exists>d. zscore z i = Some d \<and> d \<le> score now"
    and "0 < n \<Longrightarrow> length ids \<le> nat n" and "sorted (map (\<lambda>i. the (zscore z i)) ids)"
    and "zscore z i = Some d \<Longrightarrow> d \<le> score now \<Longrightarrow> i \<notin> set ids \<Longrightarrow>
      0 < n \<and> length ids = nat n \<and> (\<forall>k\<in>set ids. the (zscore z k) \<le> d)"
proof -
  define hits where "hits = map snd (filter (\<lambda>p. fst p \<le> score now) z)"
  have eq: "ids = limited n hits" using zrange_ids [OF ids] by (simp add: hits_def)
  have sorted: "sorted (map (\<lambda>i. the (zscore z i)) hits)"
    unfolding hits_def using hits_scores [OF wf] hits_sorted [OF wf] by metis
  have "distinct hits" unfolding hits_def by (rule hits_distinct [OF wf])
  then show "distinct ids" unfolding eq by (rule limited_props(2))
  show "0 < n \<Longrightarrow> length ids \<le> nat n" unfolding eq by (rule limited_props(3))
  show "sorted (map (\<lambda>i. the (zscore z i)) ids)" unfolding eq by (rule limited_props(4) [OF sorted])
  have "\<forall>i\<in>set hits. \<exists>d. zscore z i = Some d \<and> d \<le> score now"
    using zscore_Some_iff [OF wf] by (fastforce simp: hits_def)
  then show "\<forall>i\<in>set ids. \<exists>d. zscore z i = Some d \<and> d \<le> score now"
    using limited_props(1) [of n hits] by (auto simp: eq)
  show "0 < n \<and> length ids = nat n \<and> (\<forall>k\<in>set ids. the (zscore z k) \<le> d)"
    if "zscore z i = Some d" "d \<le> score now" "i \<notin> set ids"
  proof -
    have "(d, i) \<in> set z" using that(1) zscore_Some_iff [OF wf] by simp
    with that(2) have "i \<in> set hits" by (force simp: hits_def)
    from limited_complete [OF sorted this] that show ?thesis by (simp add: eq)
  qed
qed

text \<open>The contract \<open>job_store\<close>, discharged by the Redis store over any Redis service.\<close>

sublocale redis_store \<subseteq> job_store "redis_Store lib rs" "\<lambda>s. redis_look lib rs (db s)"
  "\<lambda>s. redis_due rs (db s)" "\<lambda>s. db_wf (db s)" "storable lib"
proof (unfold_locales, goal_cases)
  case (1 s i r s')
  then show ?case using GetJob_effect [of i s r s'] by (simp add: redis_Store_def)
next
  case (2 s i j s')
  then show ?case using GetJob_effect(2) [of i s "Inr j" s'] by (auto simp: redis_Store_def)
next
  case (3 s i s')
  then show ?case using GetJob_effect(2) [of i s "Inl ErrJobNotFound" s'] by (auto simp: redis_Store_def)
next
  case (4 s j e s')
  then show ?case
    by (auto simp: redis_Store_def RedisStore_CreateJob_def split: sum.splits dest: run_cmds_wf)
next
  case (5 s j s')
  then obtain fs where "db s' = snd (redis_run [HSET (jobKey rs (ID j)) fs,
      ZADD (schedulesKey rs) (score (DueAtMs j)) (ID j)] (db s))"
    by (auto simp: redis_Store_def RedisStore_CreateJob_def split: sum.splits dest!: run_cmds_None)
  with 5(1) show ?case by (simp add: views)
next
  case (6 s j s')
  then have "db s' = snd (redis_run [HSET (jobKey rs (ID j)) (all_fields lib j),
      ZADD (schedulesKey rs) (score (DueAtMs j)) (ID j)] (db s))"
    by (auto simp: redis_Store_def RedisStore_CreateJob_def serializeJob_storable dest!: run_cmds_None)
  then show ?case using 6 by (intro look_after_write) (simp_all add: views)
next
  case (7 s j er s')
  then consider "db s' = db s" | fs where "serializeJob lib j = Inr fs"
      "db s' = snd (redis_run [HSET (jobKey rs (ID j)) fs,
      ZADD (schedulesKey rs) (score (DueAtMs j)) (ID j)] (db s))"
    by (auto simp: redis_Store_def RedisStore_CreateJob_def split: sum.splits dest!: run_cmds_Some)
  then show ?case
  proof cases
    case (2 fs)
    have "look s' (ID j) = Inr (merged (present (look s (ID j))) j)"
      if "storable lib j" "readable (look s (ID j))" "look = (\<lambda>s. redis_look lib rs (db s))" for look
      using 2 that 7(1) by (simp only: that(3), intro look_after_write)
        (simp_all add: views serializeJob_storable)
    with 2(2) 7(1) show ?thesis by (simp add: views)
  qed simp
next
  case (8 s j e s')
  then consider "db s' = db s" | fs where "db s' = snd (redis_run [HSET (jobKey rs (ID j)) fs] (db s))"
    by (auto simp: redis_Store_def RedisStore_UpdateJob_def split: sum.splits dest!: run_cmds_any)
  moreover have "db_wf (db s')"
    using 8 run_cmds_wf by (auto simp: redis_Store_def RedisStore_UpdateJob_def split: sum.splits)
  ultimately show ?case
  proof cases
    case (2 fs)
    with \<open>db_wf (db s')\<close> show ?thesis by (simp add: views)
  qed simp
next
  case (9 s j s')
  then have "db s' = snd (redis_run [HSET (jobKey rs (ID j)) (all_fields lib j)] (db s))"
    by (auto simp: redis_Store_def RedisStore_UpdateJob_def serializeJob_storable dest!: run_cmds_None)
  then show ?case using 9 by (intro look_after_write) (simp_all add: views)
next
  case (10 s j er s')
  then consider "db s' = db s" | fs where "serializeJob lib j = Inr fs"
      "db s' = snd (redis_run [HSET (jobKey rs (ID j)) fs] (db s))"
    by (auto simp: redis_Store_def RedisStore_UpdateJob_def split: sum.splits dest!: run_cmds_Some)
  then show ?case
  proof cases
    case (2 fs)
    have "look s' (ID j) = Inr (merged (present (look s (ID j))) j)"
      if "storable lib j" "readable (look s (ID j))" "look = (\<lambda>s. redis_look lib rs (db s))" for look
      using 2 that 10(1) by (simp only: that(3), intro look_after_write)
        (simp_all add: views serializeJob_storable)
    then show ?thesis by simp
  qed simp
next
  case (11 s i e s')
  then show ?case
    using run_cmds_wf [OF 11(1)] by (auto simp: views redis_Store_def RedisStore_DeleteJob_def dest!: run_cmds_any)
next
  case (12 s i s')
  then show ?case
    by (auto simp: views redis_Store_def RedisStore_DeleteJob_def dest!: run_cmds_None)
next
  case (13 s i er s')
  then show ?case
    by (auto simp: views redis_Store_def RedisStore_DeleteJob_def dest!: run_cmds_Some)
next
  case (14 s now n rd s')
  then show ?case using GetDueJobs_effect(1) [of now n s rd s'] by (simp add: redis_Store_def)
next
  case (15 s now n ids s')
  then show ?case
    using due_ids(1,2) [OF db_wf_zset [OF 15(1)] GetDueJobs_effect(2) [of now n s "Inr ids" s']]
    by (simp add: redis_Store_def redis_due_def)
next
  case (16 s now n ids s')
  then show ?case
    using due_ids(3) [OF db_wf_zset [OF 16(1)] GetDueJobs_effect(2) [of now n s "Inr ids" s']]
    by (simp add: redis_Store_def)
next
  case (17 s now n ids s')
  then show ?case
    using due_ids(4) [OF db_wf_zset [OF 17(1)] GetDueJobs_effect(2) [of now n s "Inr ids" s']]
    by (simp add: redis_Store_def redis_due_def)
next
  case (18 s now n ids s' i d)
  then show ?case
    using due_ids(5) [OF db_wf_zset [OF 18(1)] GetDueJobs_effect(2) [of now n s "Inr ids" s']]
    by (simp add: redis_Store_def redis_due_def)
next
  case (19 s i e s')
  then show ?case
    using run_cmds_wf [OF 19(1)] by (auto simp: views redis_Store_def RedisStore_RemoveFromSchedule_def dest!: run_cmds_any)
next
  case (20 s i s')
  then show ?case
    by (auto simp: views redis_Store_def RedisStore_RemoveFromSchedule_def dest!: run_cmds_None)
next
  case (21 s i er s')
  then show ?case
    by (auto simp: views redis_Store_def RedisStore_RemoveFromSchedule_def dest!: run_cmds_Some)
next
  case (22 s i ms e s')
  then show ?case
    using run_cmds_wf [OF 22(1)] by (auto simp: views redis_Store_def RedisStore_AddToSchedule_def dest!: run_cmds_any)
next
  case (23 s i ms s')
  then show ?case
    by (auto simp: views redis_Store_def RedisStore_AddToSchedule_def dest!: run_cmds_None)
next
  case (24 s i ms er s')
  then show ?case
    by (auto simp: views redis_Store_def RedisStore_AddToSchedule_def dest!: run_cmds_Some)
next
  case (25 j j')
  then show ?case by (simp add: storable_def)
next
  case (26 s e s')
  then show ?case using Ping_effect by (simp add: redis_Store_def)
qed

subsection \<open>A reference server\<close>

text \<open>
  An in-memory server that follows a script of faults: a call can be lost before the server sees
  it or its reply can be lost after the effect. It interprets the service contract, so the
  hypotheses of the properties are met by a concrete client, faults included.
\<close>

datatype fault = NoFault | Lost | LateFault

record ref_server =
  rdb :: redis_db
  faults :: "fault list"

definition ref_exec :: "ref_server redis_client" where
  "ref_exec cs s =
     (let (rs, d) = redis_run cs (rdb s); s1 = s\<lparr>faults := drop 1 (faults s)\<rparr>
      in case faults s of
           Lost # _ \<Rightarrow> (Inl ''connection refused'', s1)
         | LateFault # _ \<Rightarrow> (Inl ''i/o timeout'', s1\<lparr>rdb := d\<rparr>)
         | _ \<Rightarrow> (Inr rs, s1\<lparr>rdb := d\<rparr>))"

definition ref_store :: "ref_server RedisStore" where
  "ref_store = \<lparr>client = ref_exec, namespace = ''tickhook''\<rparr>"

definition empty_db :: redis_db where
  "empty_db = \<lparr>hashes = (\<lambda>_. []), zsets = (\<lambda>_. [])\<rparr>"

lemma db_wf_empty [simp]: "db_wf empty_db"
  by (simp add: db_wf_def empty_db_def)

interpretation ref: redis_service ref_exec rdb
  by unfold_locales (auto simp: ref_exec_def split_beta Let_def split: list.splits fault.splits)

interpretation ref_st: redis_store ref_store rdb lib for lib
  by (simp add: redis_store_def ref_store_def ref.redis_service_axioms)

lemma ref_service: "redis_service (client ref_store) rdb"
  by (simp add: ref_store_def ref.redis_service_axioms)

subsection \<open>Properties of the store\<close>

lemma deserializeJob_cong: "field d = field d' \<Longrightarrow> deserializeJob lib d = deserializeJob lib d'"
  by (simp add: deserializeJob_def read_i64_def read_int_def read_opt_def)

text \<open>C6 A job survives the trip through its hash: what the serializer writes, the deserializer
  reads back unchanged, headers in JSON included, for every job whose headers are UTF-8, whose
  body the JSON codec carries and whose interval is not negative.\<close>

theorem serialize_roundtrip:
  assumes "storable lib j" and "0 \<le> sint (IntervalMs j)"
  shows "\<exists>d. serializeJob lib j = Inr d \<and> deserializeJob lib d = Inr j"
proof -
  have "map_of (put_all (all_fields lib j) []) = map_of (all_fields lib j)"
    by (simp add: map_of_put_all all_fields_distinct)
  then have "field (put_all (all_fields lib j) []) = field (all_fields lib j)"
    by (simp add: field_def fun_eq_iff)
  moreover have "deserializeJob lib (put_all (all_fields lib j) []) = Inr j"
    using deserialize_put_all [OF assms(1), of "[]" None] assms(2)
    by (simp add: old_reads_def merged_None)
  ultimately have "deserializeJob lib (all_fields lib j) = Inr j"
    using deserializeJob_cong by metis
  with serializeJob_storable [OF assms(1)] show ?thesis by blast
qed

definition sample_job :: Job where
  "sample_job = \<lparr>ID = ''j1'', Type = JobTypeRecurring, DueAtMs = 1000, IntervalMs = 500,
     Attempt = 1, MaxAttempts = 3, BackoffBaseMs = 100, URL = ''http://a.io/x'', Method = ''PUT'',
     Headers = Some Map.empty, Body = None, TimeoutMs = 5000, CreatedAtMs = 10, UpdatedAtMs = 20,
     LastError = ''HTTP 500'', LastHTTPCode = 500, Status = JobStatusPending\<rparr>"

lemma sample_job_simps [simp]:
  "ID sample_job = ''j1''" "Type sample_job = JobTypeRecurring" "DueAtMs sample_job = 1000"
  "IntervalMs sample_job = 500" "Attempt sample_job = 1" "MaxAttempts sample_job = 3"
  "URL sample_job = ''http://a.io/x''" "LastError sample_job = ''HTTP 500''"
  "LastHTTPCode sample_job = 500" "Status sample_job = JobStatusPending"
  by (simp_all add: sample_job_def)

lemma sample_job_storable: "storable plain_lib sample_job"
  by (simp add: storable_def plain_lib_def sample_job_def)

text \<open>The same with a header whose value has characters that the encoder escapes.\<close>

definition headed_job :: Job where
  "headed_job = sample_job\<lparr>Headers := Some [''X-A'' \<mapsto> ''<b> & c'']\<rparr>"

lemma headed_job_storable: "storable plain_lib headed_job"
proof -
  have "utf8 ''X-A''" "utf8 ''<b> & c''" by (simp_all add: is_ascii_utf8 is_ascii_def)
  then show ?thesis by (simp add: storable_def headed_job_def sample_job_def)
qed

theorem serialize_roundtrip_witness:
  "\<exists>d. serializeJob plain_lib headed_job = Inr d \<and> deserializeJob plain_lib d = Inr headed_job"
  using serialize_roundtrip [OF headed_job_storable] by (simp add: headed_job_def)

lemmas store_ops = redis_Store_def

context redis_store
begin

lemma create_visible:
  assumes "db_wf (db s)" "RedisStore_CreateJob lib rs j s = (None, s1)" "storable lib j"
    and "0 \<le> sint (IntervalMs j)" "redis_look lib rs (db s) (ID j) = Inl ErrJobNotFound"
    and "RedisStore_GetJob lib rs (ID j) s1 = (r, s2)"
  shows "(r = Inr j \<or> (\<exists>er. r = Inl (RedisFailed ''failed to get job'' er)))
    \<and> redis_due rs (db s1) (ID j) = Some (score (DueAtMs j))"
  using create_then_look [of s j s1] GetJob_effect(2) [OF assms(6)] assms(1-5)
  by (auto simp: store_ops)

lemma update_stale:
  assumes "db_wf (db s)" "redis_look lib rs (db s) (ID j) = Inr old" "storable lib j"
    and "RedisStore_UpdateJob lib rs j s = (None, s1)"
  shows "redis_look lib rs (db s1) (ID j) = Inr (merged (Some old) j)"
    and "redis_due rs (db s1) = redis_due rs (db s)"
  using update_then_look [of s j s1 old] update_frame [of s j None s1] assms by (simp_all add: store_ops)

lemma due_answer:
  assumes "db_wf (db s)" "RedisStore_GetDueJobs rs now n s = (Inr ids, s1)" "0 < sint n"
  shows "db s1 = db s \<and> distinct ids \<and> length ids \<le> nat (sint n)
    \<and> sorted (map (\<lambda>i. the (redis_due rs (db s) i)) ids)
    \<and> set ids \<subseteq> {i. \<exists>d. redis_due rs (db s) i = Some d \<and> d \<le> score now}
    \<and> (length ids < nat (sint n) \<longrightarrow>
         set ids = {i. \<exists>d. redis_due rs (db s) i = Some d \<and> d \<le> score now})"
proof (intro conjI impI)
  have ids: "GetDueJobs (redis_Store lib rs) now n s = (Inr ids, s1)"
    using assms(2) by (simp add: store_ops)
  show "db s1 = db s" using GetDueJobs_effect(1) [OF assms(2)] .
  show "length ids \<le> nat (sint n)" using due_limit [OF assms(1) ids assms(3)] .
  show "sorted (map (\<lambda>i. the (redis_due rs (db s) i)) ids)" using due_order [OF assms(1) ids] .
  show d: "distinct ids"
    and sub: "set ids \<subseteq> {i. \<exists>d. redis_due rs (db s) i = Some d \<and> d \<le> score now}"
    using due_sound [OF assms(1) ids] by auto
  assume "length ids < nat (sint n)"
  then show "set ids = {i. \<exists>d. redis_due rs (db s) i = Some d \<and> d \<le> score now}"
    using due_complete [OF assms(1) ids] sub by fastforce
qed

end

text \<open>Runs on the reference server.\<close>

definition ref_init :: ref_server where
  "ref_init = \<lparr>rdb = empty_db, faults = []\<rparr>"

lemma ref_init_wf [simp]: "db_wf (rdb ref_init)"
  by (simp add: ref_init_def)

lemma ref_run_ok:
  "faults s = [] \<Longrightarrow> run_cmds ref_store what cs s = (None, s\<lparr>rdb := snd (redis_run cs (rdb s))\<rparr>)"
  by (simp add: run_cmds_def ref_store_def ref_exec_def split_beta)

definition ref_created :: "Job \<Rightarrow> ref_server" where
  "ref_created j = snd (RedisStore_CreateJob plain_lib ref_store j ref_init)"

lemma ref_created:
  assumes "storable plain_lib j"
  shows "RedisStore_CreateJob plain_lib ref_store j ref_init = (None, ref_created j)"
    and "faults (ref_created j) = []" "db_wf (rdb (ref_created j))"
  using ref_st.create_inv [where lib = plain_lib and s = ref_init and j = j] assms
  by (simp_all add: ref_created_def RedisStore_CreateJob_def serializeJob_storable ref_run_ok
      ref_init_def store_ops)

lemma ref_init_look: "redis_look lib rs (rdb ref_init) i = Inl ErrJobNotFound"
  by (simp add: redis_look_def ref_init_def empty_db_def)

lemma ref_created_look:
  "storable plain_lib j \<Longrightarrow> 0 \<le> sint (IntervalMs j) \<Longrightarrow>
     redis_look plain_lib ref_store (rdb (ref_created j)) (ID j) = Inr j"
  using ref_st.create_then_look(1) [where lib = plain_lib and s = ref_init and j = j] ref_created [of j]
  by (simp add: store_ops ref_init_look)

text \<open>C32 Reading a job right after a successful creation under a fresh id gives back that job, or a
  Redis failure, never a missing or a different job; and the job is scheduled at its due time.\<close>

theorem create_then_get:
  assumes "redis_service (client rs) db" "db_wf (db s)"
    and "RedisStore_CreateJob lib rs j s = (None, s1)" "storable lib j" "0 \<le> sint (IntervalMs j)"
    and "redis_look lib rs (db s) (ID j) = Inl ErrJobNotFound"
    and "RedisStore_GetJob lib rs (ID j) s1 = (r, s2)"
  shows "(r = Inr j \<or> (\<exists>er. r = Inl (RedisFailed ''failed to get job'' er)))
    \<and> redis_due rs (db s1) (ID j) = Some (score (DueAtMs j))"
  by (rule redis_store.create_visible [OF redis_store.intro [OF assms(1)] assms(2-7)])

theorem create_then_get_witness:
  "(fst (RedisStore_GetJob plain_lib ref_store ''j1'' (ref_created sample_job)) = Inr sample_job
    \<or> (\<exists>er. fst (RedisStore_GetJob plain_lib ref_store ''j1'' (ref_created sample_job))
         = Inl (RedisFailed ''failed to get job'' er)))
   \<and> redis_due ref_store (rdb (ref_created sample_job)) ''j1'' = Some (score 1000)"
proof -
  obtain r s2 where get:
    "RedisStore_GetJob plain_lib ref_store (ID sample_job) (ref_created sample_job) = (r, s2)"
    by (rule prod.exhaust)
  have "0 \<le> sint (IntervalMs sample_job)" by simp
  from create_then_get [OF ref_service ref_init_wf ref_created(1) [OF sample_job_storable]
      sample_job_storable this ref_init_look get]
  show ?thesis using get by simp
qed

text \<open>C33 An update does not clear what the job no longer has: over a stored job with an error and an
  HTTP code, writing a job without them succeeds and reading gives the old error and code, since
  the serializer leaves empty fields out and the hash keeps them.\<close>

theorem update_keeps_cleared_error:
  assumes "redis_service (client rs) db" "db_wf (db s)" "storable lib j"
    and "redis_look lib rs (db s) (ID j) = Inr old"
    and "RedisStore_UpdateJob lib rs j s = (None, s1)"
    and "LastError j = []" "LastHTTPCode j = 0"
  shows "\<exists>j'. redis_look lib rs (db s1) (ID j) = Inr j' \<and> j' = merged (Some old) j
    \<and> LastError j' = LastError old \<and> LastHTTPCode j' = LastHTTPCode old"
  using redis_store.update_stale [OF redis_store.intro [OF assms(1)] assms(2,4,3,5)] assms(6,7)
  by (simp add: merged_def)

definition cleared_job :: Job where
  "cleared_job = sample_job\<lparr>LastError := [], LastHTTPCode := 0, Attempt := 0\<rparr>"

lemma cleared_job_simps [simp]:
  "ID cleared_job = ''j1''" "LastError cleared_job = []" "LastHTTPCode cleared_job = 0"
  by (simp_all add: cleared_job_def)

lemma cleared_job_storable: "storable plain_lib cleared_job"
  using sample_job_storable by (simp add: storable_def cleared_job_def)

lemma ref_update_ok:
  assumes "storable plain_lib j" "faults s = []"
  shows "RedisStore_UpdateJob plain_lib ref_store j s
    = (None, snd (RedisStore_UpdateJob plain_lib ref_store j s))"
  using assms by (simp add: RedisStore_UpdateJob_def serializeJob_storable ref_run_ok)

theorem update_keeps_cleared_error_witness:
  "\<exists>s1 j'. RedisStore_UpdateJob plain_lib ref_store cleared_job (ref_created sample_job) = (None, s1)
     \<and> redis_look plain_lib ref_store (rdb s1) ''j1'' = Inr j' \<and> LastError j' = ''HTTP 500''"
proof -
  note c = ref_created [OF sample_job_storable]
  have "redis_look plain_lib ref_store (rdb (ref_created sample_job)) (ID cleared_job) = Inr sample_job"
    using ref_created_look [OF sample_job_storable] by simp
  from update_keeps_cleared_error [OF ref_service c(3) cleared_job_storable this
      ref_update_ok [OF cleared_job_storable c(2)]] ref_update_ok [OF cleared_job_storable c(2)]
  show ?thesis by auto
qed

text \<open>C34 A poll query without error returns, without repetition and in the order of their due times,
  at most the requested number of scheduled jobs whose score is not later than now; if it
  returns fewer, it returns all of them. It changes nothing.\<close>

theorem due_jobs_exact:
  assumes "redis_service (client rs) db" "db_wf (db s)"
    and "RedisStore_GetDueJobs rs now n s = (Inr ids, s1)" "0 < sint n"
  shows "db s1 = db s \<and> distinct ids \<and> length ids \<le> nat (sint n)
    \<and> sorted (map (\<lambda>i. the (redis_due rs (db s) i)) ids)
    \<and> set ids \<subseteq> {i. \<exists>d. redis_due rs (db s) i = Some d \<and> d \<le> score now}
    \<and> (length ids < nat (sint n) \<longrightarrow>
         set ids = {i. \<exists>d. redis_due rs (db s) i = Some d \<and> d \<le> score now})"
  by (rule redis_store.due_answer [OF redis_store.intro [OF assms(1)] assms(2-4)])

definition ref_two :: ref_server where
  "ref_two = \<lparr>rdb = \<lparr>hashes = (\<lambda>_. []),
     zsets = (\<lambda>k. if k = ''tickhook:schedules'' then [(100, ''b''), (200, ''a''), (900, ''c'')] else [])\<rparr>,
     faults = []\<rparr>"

lemma ref_two_wf: "db_wf (rdb ref_two)"
  by (simp add: db_wf_def ref_two_def zset_wf_def less_eq_prod_def)

lemma ref_two_due: "RedisStore_GetDueJobs ref_store 500 10 ref_two = (Inr [''b'', ''a''], ref_two)"
proof -
  have "score 500 = 500" by (simp add: score_exact)
  then show ?thesis
    by (simp add: RedisStore_GetDueJobs_def ref_store_def ref_exec_def ref_two_def redis_run.simps
        schedulesKey_def zrange_FormatInt)
qed

theorem due_jobs_exact_witness:
  "set [''b'', ''a''] = {i. \<exists>d. redis_due ref_store (rdb ref_two) i = Some d \<and> d \<le> score 500}"
  using due_jobs_exact [OF ref_service ref_two_wf ref_two_due] by simp

end
