(* ===== verification/Executor.thy ===== *)
theory Executor
  imports RedisStore
begin

text \<open>
  \<open>internal/executor/executor.go\<close>, the execution of one job: the HTTP request built from it, the
  classification of the response and the three outcome handlers, over any \<open>Store\<close>. What the
  environment decides in one execution, the clock readings, the random number, the order in which
  Go iterates the header map and the answer of the HTTP client, is the record \<open>exec_input\<close>. The
  result says what the last log line of the code says, with the state the store is left in.
  The worker pool, its queue and its semaphores are in the theory \<open>WorkerPool\<close>.
\<close>

subsection \<open>The request\<close>

record http_request =
  rq_method :: string
  rq_url :: string
  rq_body :: "string option"
  rq_headers :: header_map
  rq_timeout_ns :: i64

record exec_input =
  in_clock :: go_time
  in_retry_clock :: go_time
  in_draw :: nat
  in_key_order :: "string list"
  in_do :: "http_request \<Rightarrow> string + i64"

text \<open>\<open>http.Header.Set\<close>.\<close>

definition set_header :: "string \<Rightarrow> string \<Rightarrow> header_map \<Rightarrow> header_map" where
  "set_header k v h = h(CanonicalKey k \<mapsto> v)"

text \<open>The loop over the user's headers; Go visits the keys of the map in any order \<open>ks\<close>.\<close>

definition user_headers :: "header_map \<Rightarrow> string list \<Rightarrow> header_map \<Rightarrow> header_map" where
  "user_headers hs ks h =
     fold (\<lambda>k h. case hs k of None \<Rightarrow> h | Some v \<Rightarrow> set_header k v h) ks h"

text \<open>The checks of \<open>http.NewRequestWithContext\<close>: a token as method, a URL that parses.\<close>

definition new_request_check :: "golib \<Rightarrow> string \<Rightarrow> string \<Rightarrow> string + string" where
  "new_request_check lib method u =
     (let m = (if method = [] then ''GET'' else method)
      in if \<not> list_all is_token_char m then Inl (''net/http: invalid method '' @ quote lib m)
         else sbind (map_err (parse_error_text lib) (Parse u)) (\<lambda>_. Inr m))"

definition build_request :: "golib \<Rightarrow> string list \<Rightarrow> Job \<Rightarrow> string + http_request" where
  "build_request lib ks job =
     sbind (case Body job of
              None \<Rightarrow> Inr None
            | Some b \<Rightarrow> map_err (\<lambda>e. ''failed to marshal body: '' @ e)
                (sbind (marshal_body lib b) (\<lambda>t. Inr (Some t)))) (\<lambda>body.
     let timeout = TimeoutMs job * 1000000
     in sbind (map_err (\<lambda>e. ''failed to create request: '' @ e)
                 (new_request_check lib (Method job) (URL job))) (\<lambda>m.
        let h = Map.empty;
            h = (if Body job \<noteq> None then set_header ''Content-Type'' ''application/json'' h else h);
            h = user_headers (case Headers job of None \<Rightarrow> Map.empty | Some hs \<Rightarrow> hs) ks h;
            h = set_header ''X-Job-Id'' (ID job) h;
            h = set_header ''Idempotency-Key'' (ID job) h
        in Inr \<lparr>rq_method = m, rq_url = URL job, rq_body = body, rq_headers = h,
                rq_timeout_ns = timeout\<rparr>))"

text \<open>\<open>doWebhook\<close>: the status, or the text of the error (the status is then 0).\<close>

definition doWebhook :: "golib \<Rightarrow> exec_input \<Rightarrow> Job \<Rightarrow> string + i64" where
  "doWebhook lib inp job =
     sbind (build_request lib (in_key_order inp) job)
       (\<lambda>req. map_err (\<lambda>e. ''request failed: '' @ e) (in_do inp req))"

subsection \<open>Outcomes\<close>

datatype exec_outcome =
    LoadFailed store_error
  | OneShotDeleted
  | DeleteFailed store_error
  | Rescheduled i64
  | RetryScheduled i64
  | UpdateFailed store_error
  | RescheduleFailed store_error
  | FinalFailure "store_error option"
  | NonRetryable "store_error option"
  | Panicked

definition handleExecutionSuccess :: "'s Store \<Rightarrow> exec_input \<Rightarrow> Job \<Rightarrow> 's \<Rightarrow> exec_outcome \<times> 's" where
  "handleExecutionSuccess st inp job s =
     (if Type job = JobTypeOneShot then
        (case DeleteJob st (ID job) s of
           (Some e, s1) \<Rightarrow> (DeleteFailed e, s1)
         | (None, s1) \<Rightarrow> (OneShotDeleted, s1))
      else
        let nextDueAtMs = DueAtMs job + IntervalMs job;
            job = job\<lparr>DueAtMs := nextDueAtMs, Attempt := 0, LastError := [], LastHTTPCode := 0,
                      UpdatedAtMs := NowMs (in_clock inp), Status := JobStatusPending\<rparr>
        in (case UpdateJob st job s of
              (Some e, s1) \<Rightarrow> (UpdateFailed e, s1)
            | (None, s1) \<Rightarrow>
                (case AddToSchedule st (ID job) nextDueAtMs s1 of
                   (Some e, s2) \<Rightarrow> (RescheduleFailed e, s2)
                 | (None, s2) \<Rightarrow> (Rescheduled nextDueAtMs, s2))))"

definition handleExecutionFailure ::
    "golib \<Rightarrow> 's Store \<Rightarrow> exec_input \<Rightarrow> Job \<Rightarrow> string \<Rightarrow> i64 \<Rightarrow> 's \<Rightarrow> exec_outcome \<times> 's" where
  "handleExecutionFailure lib st inp job errMsg statusCode s =
     (let job = job\<lparr>Attempt := Attempt job + 1, LastError := errMsg, LastHTTPCode := statusCode,
                    UpdatedAtMs := NowMs (in_clock inp)\<rparr>
      in if sint (Attempt job) \<ge> sint (MaxAttempts job) then
           (let (e, s1) = UpdateJob st (job\<lparr>Status := JobStatusFailed\<rparr>) s
            in (FinalFailure e, s1))
         else
           (case CalculateBackoff lib (in_draw inp) (Attempt job) (BackoffBaseMs job) DefaultJitterMaxMs of
              None \<Rightarrow> (Panicked, s)
            | Some backoffMs \<Rightarrow>
                let nextDueAtMs = NowMs (in_retry_clock inp) + backoffMs;
                    job = job\<lparr>DueAtMs := nextDueAtMs\<rparr>
                in (case UpdateJob st job s of
                      (Some e, s1) \<Rightarrow> (UpdateFailed e, s1)
                    | (None, s1) \<Rightarrow>
                        (case AddToSchedule st (ID job) nextDueAtMs s1 of
                           (Some e, s2) \<Rightarrow> (RescheduleFailed e, s2)
                         | (None, s2) \<Rightarrow> (RetryScheduled nextDueAtMs, s2)))))"

definition handleNonRetryableFailure ::
    "'s Store \<Rightarrow> exec_input \<Rightarrow> Job \<Rightarrow> string \<Rightarrow> i64 \<Rightarrow> 's \<Rightarrow> exec_outcome \<times> 's" where
  "handleNonRetryableFailure st inp job errMsg statusCode s =
     (let job = job\<lparr>Attempt := MaxAttempts job, LastError := errMsg, LastHTTPCode := statusCode,
                    UpdatedAtMs := NowMs (in_clock inp), Status := JobStatusFailed\<rparr>;
          (e, s1) = UpdateJob st job s
      in (NonRetryable e, s1))"

text \<open>The part of \<open>executeJob\<close> after the request: classification of its result.\<close>

definition finishJob ::
    "golib \<Rightarrow> 's Store \<Rightarrow> exec_input \<Rightarrow> Job \<Rightarrow> string + i64 \<Rightarrow> 's \<Rightarrow> exec_outcome \<times> 's" where
  "finishJob lib st inp job result s =
     (case result of
        Inl execErr \<Rightarrow> handleExecutionFailure lib st inp job execErr 0 s
      | Inr statusCode \<Rightarrow>
          if IsSuccessHTTPStatus statusCode then handleExecutionSuccess st inp job s
          else if IsClientErrorHTTPStatus statusCode then
            handleNonRetryableFailure st inp job (''HTTP '' @ FormatInt statusCode) statusCode s
          else handleExecutionFailure lib st inp job (''HTTP '' @ FormatInt statusCode) statusCode s)"

text \<open>\<open>executeJob\<close> once its worker holds what it waits for.\<close>

definition executeJob ::
    "golib \<Rightarrow> 's Store \<Rightarrow> exec_input \<Rightarrow> string \<Rightarrow> 's \<Rightarrow> exec_outcome \<times> 's" where
  "executeJob lib st inp jobID s =
     (case GetJob st jobID s of
        (Inl e, s1) \<Rightarrow> (LoadFailed e, s1)
      | (Inr job, s1) \<Rightarrow>
          (case ExtractDomain lib (URL job) of
             Inl _ \<Rightarrow> handleExecutionFailure lib st inp job ''invalid URL'' 0 s1
           | Inr domain \<Rightarrow> finishJob lib st inp job (doWebhook lib inp job) s1))"

subsection \<open>The request cannot lose its identity\<close>

lemma build_request_Inr:
  assumes "build_request lib ks job = Inr req"
  shows "rq_headers req ''X-Job-Id'' = Some (ID job)"
    and "rq_headers req ''Idempotency-Key'' = Some (ID job)"
    and "rq_url req = URL job" and "rq_timeout_ns req = TimeoutMs job * 1000000"
    and "(rq_body req = None) = (Body job = None)"
proof -
  have "CanonicalKey ''X-Job-Id'' = ''X-Job-Id''" "CanonicalKey ''Idempotency-Key'' = ''Idempotency-Key''"
    by code_simp+
  with assms show "rq_headers req ''X-Job-Id'' = Some (ID job)"
    "rq_headers req ''Idempotency-Key'' = Some (ID job)"
    "rq_url req = URL job" "rq_timeout_ns req = TimeoutMs job * 1000000"
    "(rq_body req = None) = (Body job = None)"
    by (auto simp: build_request_def Let_def sbind_eq_Inr_iff set_header_def split: option.splits)
qed

subsection \<open>What the handlers do to the store\<close>

definition success_job :: "exec_input \<Rightarrow> Job \<Rightarrow> Job" where
  "success_job inp job = job\<lparr>DueAtMs := DueAtMs job + IntervalMs job, Attempt := 0, LastError := [],
     LastHTTPCode := 0, UpdatedAtMs := NowMs (in_clock inp), Status := JobStatusPending\<rparr>"

definition failed_job :: "exec_input \<Rightarrow> Job \<Rightarrow> string \<Rightarrow> i64 \<Rightarrow> Job" where
  "failed_job inp job errMsg statusCode = job\<lparr>Attempt := Attempt job + 1, LastError := errMsg,
     LastHTTPCode := statusCode, UpdatedAtMs := NowMs (in_clock inp)\<rparr>"

definition rejected_job :: "exec_input \<Rightarrow> Job \<Rightarrow> string \<Rightarrow> i64 \<Rightarrow> Job" where
  "rejected_job inp job errMsg statusCode = job\<lparr>Attempt := MaxAttempts job, LastError := errMsg,
     LastHTTPCode := statusCode, UpdatedAtMs := NowMs (in_clock inp), Status := JobStatusFailed\<rparr>"

lemma outcome_job_simps [simp]:
  "ID (success_job inp j) = ID j" "Headers (success_job inp j) = Headers j"
  "Body (success_job inp j) = Body j" "DueAtMs (success_job inp j) = DueAtMs j + IntervalMs j"
  "ID (failed_job inp j m c) = ID j" "Headers (failed_job inp j m c) = Headers j"
  "Body (failed_job inp j m c) = Body j" "Attempt (failed_job inp j m c) = Attempt j + 1"
  "MaxAttempts (failed_job inp j m c) = MaxAttempts j"
  "ID (rejected_job inp j m c) = ID j" "Headers (rejected_job inp j m c) = Headers j"
  "Body (rejected_job inp j m c) = Body j"
  by (simp_all add: success_job_def failed_job_def rejected_job_def)

text \<open>The retry delay of a job with a positive backoff, whatever the random number.\<close>

definition retry_delay :: "Job \<Rightarrow> int \<Rightarrow> int" where
  "retry_delay job draw =
     min (sint (BackoffBaseMs job) * 2 ^ nat (max 1 (sint (Attempt job + 1)) - 1)) MaxBackoffMs
     + draw mod 251"

lemma backoff_of_job:
  assumes "0 < sint (BackoffBaseMs job)"
  shows "\<exists>b. CalculateBackoff lib draw (Attempt job + 1) (BackoffBaseMs job) DefaultJitterMaxMs = Some b
    \<and> sint b = retry_delay job (int draw)"
  using CalculateBackoff_value [OF assms, of DefaultJitterMaxMs lib draw "Attempt job + 1"]
  by (simp add: DefaultJitterMaxMs_def retry_delay_def)

text \<open>The handlers, written over the jobs they store: two of them store a job and schedule it.\<close>

definition retry_job :: "exec_input \<Rightarrow> Job \<Rightarrow> string \<Rightarrow> i64 \<Rightarrow> i64 \<Rightarrow> Job" where
  "retry_job inp job errMsg statusCode backoffMs =
     (failed_job inp job errMsg statusCode)\<lparr>DueAtMs := NowMs (in_retry_clock inp) + backoffMs\<rparr>"

definition final_job :: "exec_input \<Rightarrow> Job \<Rightarrow> string \<Rightarrow> i64 \<Rightarrow> Job" where
  "final_job inp job errMsg statusCode = (failed_job inp job errMsg statusCode)\<lparr>Status := JobStatusFailed\<rparr>"

definition reschedule :: "'s Store \<Rightarrow> (i64 \<Rightarrow> exec_outcome) \<Rightarrow> Job \<Rightarrow> 's \<Rightarrow> exec_outcome \<times> 's" where
  "reschedule st ok j s =
     (case UpdateJob st j s of
        (Some e, s1) \<Rightarrow> (UpdateFailed e, s1)
      | (None, s1) \<Rightarrow>
          (case AddToSchedule st (ID j) (DueAtMs j) s1 of
             (Some e, s2) \<Rightarrow> (RescheduleFailed e, s2)
           | (None, s2) \<Rightarrow> (ok (DueAtMs j), s2)))"

lemma success_recurring_eq:
  "Type job \<noteq> JobTypeOneShot \<Longrightarrow>
     handleExecutionSuccess st inp job s = reschedule st Rescheduled (success_job inp job) s"
  by (simp add: handleExecutionSuccess_def success_job_def reschedule_def Let_def
      split: prod.split option.split)

lemma failure_final_eq:
  "sint (MaxAttempts job) \<le> sint (Attempt job + 1) \<Longrightarrow>
     handleExecutionFailure lib st inp job m c s =
       (let (e, s1) = UpdateJob st (final_job inp job m c) s in (FinalFailure e, s1))"
  by (simp add: handleExecutionFailure_def failed_job_def final_job_def Let_def)

lemma failure_retry_eq:
  assumes "\<not> sint (MaxAttempts job) \<le> sint (Attempt job + 1)"
    and "CalculateBackoff lib (in_draw inp) (Attempt job + 1) (BackoffBaseMs job) DefaultJitterMaxMs = Some b"
  shows "handleExecutionFailure lib st inp job m c s
    = reschedule st RetryScheduled (retry_job inp job m c b) s"
  using assms by (simp add: handleExecutionFailure_def failed_job_def retry_job_def reschedule_def Let_def
      split: prod.split option.split)

lemma rejected_eq:
  "handleNonRetryableFailure st inp job m c s =
     (let (e, s1) = UpdateJob st (rejected_job inp job m c) s in (NonRetryable e, s1))"
  by (simp add: handleNonRetryableFailure_def rejected_job_def Let_def)

text \<open>Each job a handler stores keeps the configuration and satisfies the invariant.\<close>

lemmas outcome_job_defs = success_job_def failed_job_def rejected_job_def retry_job_def final_job_def

lemma outcome_same_config:
  "same_config (success_job inp j) j" "same_config (rejected_job inp j m c) j"
  "same_config (retry_job inp j m c b) j" "same_config (final_job inp j m c) j"
  by (simp_all add: same_config_def outcome_job_defs)

lemma attempt_inc:
  "sint (Attempt j) < sint (MaxAttempts j) \<Longrightarrow> sint (Attempt j + 1) = sint (Attempt j) + 1"
  using sint_i64_range(2) [of "MaxAttempts j"] by (intro sint_inc_i64) linarith

lemma outcome_job_inv:
  assumes "job_inv j"
  shows "Type j \<noteq> JobTypeOneShot \<Longrightarrow> job_inv (success_job inp j)"
    and "job_inv (rejected_job inp j m c)"
    and "sint (Attempt j + 1) < sint (MaxAttempts j) \<Longrightarrow> sint (Attempt j) < sint (MaxAttempts j)
      \<Longrightarrow> job_inv (retry_job inp j m c b)"
    and "sint (MaxAttempts j) \<le> sint (Attempt j + 1) \<Longrightarrow> sint (Attempt j) < sint (MaxAttempts j)
      \<Longrightarrow> job_inv (final_job inp j m c)"
  using assms attempt_inc [of j]
  by (auto simp: job_inv_def job_config_ok_def outcome_job_defs intro: i64_eqI)

text \<open>
  A job as its execution holds it: valid, with attempts left, storable; and what the store holds
  under its id when the execution ends is either gone or a version of the same job.
\<close>

definition running :: "(Job \<Rightarrow> bool) \<Rightarrow> (string \<Rightarrow> store_error + Job) \<Rightarrow> Job \<Rightarrow> bool" where
  "running P lk job \<longleftrightarrow> job_inv job \<and> sint (Attempt job) < sint (MaxAttempts job) \<and> P job
     \<and> (\<forall>k. lk (ID job) = Inr k \<longrightarrow> same_config job k)"

text \<open>The part of \<open>finishJob\<close> that decides, as a function of the job and the answer.\<close>

datatype verdict = Delete | Reschedule Job | Stop Job

definition failure_verdict :: "golib \<Rightarrow> exec_input \<Rightarrow> Job \<Rightarrow> string \<Rightarrow> i64 \<Rightarrow> verdict" where
  "failure_verdict lib inp job m c =
     (if sint (Attempt job + 1) \<ge> sint (MaxAttempts job) then Stop (final_job inp job m c)
      else Reschedule (retry_job inp job m c
        (the (CalculateBackoff lib (in_draw inp) (Attempt job + 1) (BackoffBaseMs job) DefaultJitterMaxMs))))"

definition verdict :: "golib \<Rightarrow> exec_input \<Rightarrow> Job \<Rightarrow> string + i64 \<Rightarrow> verdict" where
  "verdict lib inp job result =
     (case result of
        Inl e \<Rightarrow> failure_verdict lib inp job e 0
      | Inr c \<Rightarrow>
          if 200 \<le> sint c \<and> sint c < 300 then
            (if Type job = JobTypeOneShot then Delete else Reschedule (success_job inp job))
          else if 400 \<le> sint c \<and> sint c < 500 \<and> sint c \<noteq> 429 then
            Stop (rejected_job inp job (''HTTP '' @ FormatInt c) c)
          else failure_verdict lib inp job (''HTTP '' @ FormatInt c) c)"

lemma backoff_total:
  "job_inv job \<Longrightarrow> \<exists>b. CalculateBackoff lib draw (Attempt job + 1) (BackoffBaseMs job) DefaultJitterMaxMs
     = Some b"
  using backoff_of_job [of job lib draw] by (auto simp: job_inv_def job_config_ok_def)

lemma failure_verdict_step:
  assumes "job_inv job"
  shows "failure_verdict lib inp job m c \<noteq> Delete"
    and "failure_verdict lib inp job m c = Reschedule j \<Longrightarrow>
      handleExecutionFailure lib st inp job m c s = reschedule st RetryScheduled j s"
    and "failure_verdict lib inp job m c = Stop j \<Longrightarrow>
      handleExecutionFailure lib st inp job m c s = (let (e, s1) = UpdateJob st j s in (FinalFailure e, s1))"
proof -
  obtain b where b: "CalculateBackoff lib (in_draw inp) (Attempt job + 1) (BackoffBaseMs job)
      DefaultJitterMaxMs = Some b"
    using backoff_total [OF assms] by blast
  show "failure_verdict lib inp job m c \<noteq> Delete"
    and "failure_verdict lib inp job m c = Reschedule j \<Longrightarrow>
      handleExecutionFailure lib st inp job m c s = reschedule st RetryScheduled j s"
    and "failure_verdict lib inp job m c = Stop j \<Longrightarrow>
      handleExecutionFailure lib st inp job m c s = (let (e, s1) = UpdateJob st j s in (FinalFailure e, s1))"
    using failure_retry_eq [OF _ b, of st m c s] failure_final_eq [of job lib st inp m c s]
    by (auto simp: failure_verdict_def b split: if_splits)
qed

lemma status_predicates:
  "IsSuccessHTTPStatus c \<longleftrightarrow> 200 \<le> sint c \<and> sint c < 300"
  "IsClientErrorHTTPStatus c \<longleftrightarrow> 400 \<le> sint c \<and> sint c < 500 \<and> sint c \<noteq> 429"
  by (auto simp: IsSuccessHTTPStatus_def IsClientErrorHTTPStatus_def)

text \<open>What \<open>finishJob\<close> does, by its verdict.\<close>

lemma finishJob_cases:
  "finishJob lib st inp job (Inl m) s = handleExecutionFailure lib st inp job m 0 s"
  "200 \<le> sint c \<Longrightarrow> sint c < 300 \<Longrightarrow>
     finishJob lib st inp job (Inr c) s = handleExecutionSuccess st inp job s"
  "400 \<le> sint c \<Longrightarrow> sint c < 500 \<Longrightarrow> sint c \<noteq> 429 \<Longrightarrow>
     finishJob lib st inp job (Inr c) s =
       handleNonRetryableFailure st inp job (''HTTP '' @ FormatInt c) c s"
  "\<not> (200 \<le> sint c \<and> sint c < 300) \<Longrightarrow> \<not> (400 \<le> sint c \<and> sint c < 500 \<and> sint c \<noteq> 429) \<Longrightarrow>
     finishJob lib st inp job (Inr c) s =
       handleExecutionFailure lib st inp job (''HTTP '' @ FormatInt c) c s"
  by (auto simp: finishJob_def status_predicates)

lemma finishJob_verdict:
  assumes "job_inv job"
  shows "verdict lib inp job result = Delete \<Longrightarrow> finishJob lib st inp job result s =
      (case DeleteJob st (ID job) s of (Some e, s1) \<Rightarrow> (DeleteFailed e, s1)
       | (None, s1) \<Rightarrow> (OneShotDeleted, s1))"
    and "verdict lib inp job result = Reschedule j \<Longrightarrow>
      finishJob lib st inp job result s = reschedule st Rescheduled j s
      \<or> finishJob lib st inp job result s = reschedule st RetryScheduled j s"
    and "verdict lib inp job result = Stop j \<Longrightarrow>
      finishJob lib st inp job result s = (let (e, s1) = UpdateJob st j s in (FinalFailure e, s1))
      \<or> finishJob lib st inp job result s = (let (e, s1) = UpdateJob st j s in (NonRetryable e, s1))"
proof -
  note step = failure_verdict_step [OF assms]
  show "verdict lib inp job result = Delete \<Longrightarrow> finishJob lib st inp job result s =
      (case DeleteJob st (ID job) s of (Some e, s1) \<Rightarrow> (DeleteFailed e, s1)
       | (None, s1) \<Rightarrow> (OneShotDeleted, s1))"
    using step(1) by (auto simp: verdict_def finishJob_cases handleExecutionSuccess_def
        split: sum.splits if_splits)
  show "verdict lib inp job result = Reschedule j \<Longrightarrow>
      finishJob lib st inp job result s = reschedule st Rescheduled j s
      \<or> finishJob lib st inp job result s = reschedule st RetryScheduled j s"
    using step(2) [of lib inp _ _ j st s]
    by (auto simp: verdict_def finishJob_cases success_recurring_eq split: sum.splits if_splits)
  show "verdict lib inp job result = Stop j \<Longrightarrow>
      finishJob lib st inp job result s = (let (e, s1) = UpdateJob st j s in (FinalFailure e, s1))
      \<or> finishJob lib st inp job result s = (let (e, s1) = UpdateJob st j s in (NonRetryable e, s1))"
    using step(3) [of lib inp _ _ j st s]
    by (auto simp: verdict_def finishJob_cases rejected_eq split: sum.splits if_splits)
qed

lemma verdict_jobs:
  assumes "job_inv job" "sint (Attempt job) < sint (MaxAttempts job)"
  shows "verdict lib inp job result = Reschedule j \<Longrightarrow> job_inv j \<and> same_config j job \<and> Status j = JobStatusPending"
    and "verdict lib inp job result = Stop j \<Longrightarrow> job_inv j \<and> same_config j job \<and> Status j = JobStatusFailed"
proof -
  have pend: "Status job = JobStatusPending" using assms by (auto simp: job_inv_def)
  show "verdict lib inp job result = Reschedule j \<Longrightarrow> job_inv j \<and> same_config j job \<and> Status j = JobStatusPending"
    using assms pend outcome_job_inv(1,3) [OF assms(1)] outcome_same_config
    by (auto simp: verdict_def failure_verdict_def not_le split: sum.splits if_splits)
      (simp_all add: outcome_job_defs)
  show "verdict lib inp job result = Stop j \<Longrightarrow> job_inv j \<and> same_config j job \<and> Status j = JobStatusFailed"
    using assms outcome_job_inv(2,4) [OF assms(1)] outcome_same_config
    by (auto simp: verdict_def failure_verdict_def split: sum.splits if_splits)
      (simp_all add: outcome_job_defs)
qed

lemma verdict_delete:
  "verdict lib inp job result = Delete \<longleftrightarrow>
     (\<exists>c. result = Inr c \<and> 200 \<le> sint c \<and> sint c < 300) \<and> Type job = JobTypeOneShot"
  by (auto simp: verdict_def failure_verdict_def split: sum.splits)

subsection \<open>An execution over any store\<close>

context job_store
begin

lemma reschedule_effect:
  assumes "inv s" "jobs_ok storable (look s)" "job_inv j" "storable j"
    and "\<And>k. look s (ID j) = Inr k \<Longrightarrow> same_config j k"
    and "reschedule st ok j s = (out, s')"
  shows "inv s' \<and> jobs_ok storable (look s') \<and> (\<forall>k. k \<noteq> ID j \<longrightarrow> look s' k = look s k \<and> due s' k = due s k)
    \<and> (\<exists>e. out = UpdateFailed e \<and> due s' = due s
         \<and> look s' (ID j) \<in> {look s (ID j), Inr (merged (present (look s (ID j))) j)}
       \<or> out = RescheduleFailed e \<and> due s' (ID j) \<in> {due s (ID j), Some (score (DueAtMs j))}
         \<and> look s' (ID j) = Inr (merged (present (look s (ID j))) j)
       \<or> out = ok (DueAtMs j) \<and> due s' (ID j) = Some (score (DueAtMs j))
         \<and> look s' (ID j) = Inr (merged (present (look s (ID j))) j))"
proof -
  obtain e s1 where u: "UpdateJob st j s = (e, s1)" by (rule prod.exhaust)
  have en: "entry_ok storable (ID j) (look s (ID j))" using assms(2) by (simp add: jobs_ok_def)
  note ue = update_entry [OF assms(1) u assms(3,4) en assms(5)]
  note uf = update_frame [OF assms(1) u]
  have ok1: "jobs_ok storable (look s1)" using update_jobs_ok [OF assms(1) u assms(3,4,2,5)] .
  show ?thesis
  proof (cases e)
    case (Some er)
    with assms(6) have "out = UpdateFailed er" "s' = s1" by (simp_all add: reschedule_def u)
    with uf ue ok1 show ?thesis by auto
  next
    case None
    obtain e2 s2 where a: "AddToSchedule st (ID j) (DueAtMs j) s1 = (e2, s2)" by (rule prod.exhaust)
    have inv1: "inv s1" using uf by simp
    have s': "s' = s2" and out: "out = (case e2 of None \<Rightarrow> ok (DueAtMs j) | Some er \<Rightarrow> RescheduleFailed er)"
      using assms(6) None by (auto simp: reschedule_def u a split: option.splits)
    have l2: "look s2 = look s1" and f2: "inv s2" "\<forall>k. k \<noteq> ID j \<longrightarrow> due s2 k = due s1 k"
      using add_frame [OF inv1 a] by auto
    have d2: "e2 = None \<longrightarrow> due s2 (ID j) = Some (score (DueAtMs j))"
      "e2 \<noteq> None \<longrightarrow> due s2 (ID j) \<in> {due s (ID j), Some (score (DueAtMs j))}"
      using add_ok [OF inv1, of "ID j" "DueAtMs j" s2] add_fail [OF inv1, of "ID j" "DueAtMs j" _ s2] a uf
      by auto
    have lj: "look s1 (ID j) = Inr (merged (present (look s (ID j))) j)" using ue(1) None by simp
    have "due s1 = due s" "\<forall>k. k \<noteq> ID j \<longrightarrow> look s1 k = look s k" using uf by simp_all
    then have fr: "\<forall>k. k \<noteq> ID j \<longrightarrow> look s2 k = look s k \<and> due s2 k = due s k"
      using l2 f2(2) by simp
    show ?thesis
    proof (cases e2)
      case None
      with fr f2(1) ok1 l2 d2(1) lj show ?thesis unfolding s' out by simp
    next
      case (Some er)
      with fr f2(1) ok1 l2 d2(2) lj show ?thesis unfolding s' out by simp
    qed
  qed
qed

lemma stop_effect:
  assumes "inv s" "jobs_ok storable (look s)" "job_inv j" "storable j"
    and "\<And>k. look s (ID j) = Inr k \<Longrightarrow> same_config j k"
    and "(let (e, s1) = UpdateJob st j s in (ok e, s1)) = (out, s')"
  shows "inv s' \<and> jobs_ok storable (look s') \<and> (\<forall>k. k \<noteq> ID j \<longrightarrow> look s' k = look s k)
    \<and> due s' = due s
    \<and> (\<exists>e. out = ok e \<and> (look s' (ID j) = look s (ID j) \<and> e \<noteq> None
          \<or> look s' (ID j) = Inr (merged (present (look s (ID j))) j)))"
proof -
  obtain e s1 where u: "UpdateJob st j s = (e, s1)" by (rule prod.exhaust)
  have en: "entry_ok storable (ID j) (look s (ID j))" using assms(2) by (simp add: jobs_ok_def)
  have "out = ok e" "s' = s1" using assms(6) by (simp_all add: u)
  with update_entry [OF assms(1) u assms(3,4) en assms(5)] update_frame [OF assms(1) u]
    update_jobs_ok [OF assms(1) u assms(3,4,2,5)]
  show ?thesis by auto
qed

lemma running_verdict:
  assumes "running storable lk job"
  shows "verdict lib inp job result = Reschedule j \<Longrightarrow> job_inv j \<and> ID j = ID job \<and> storable j
      \<and> same_config j job \<and> (\<forall>k. lk (ID j) = Inr k \<longrightarrow> same_config j k)"
    and "verdict lib inp job result = Stop j \<Longrightarrow> job_inv j \<and> ID j = ID job \<and> storable j
      \<and> same_config j job \<and> (\<forall>k. lk (ID j) = Inr k \<longrightarrow> same_config j k)"
proof -
  have job: "job_inv job" "sint (Attempt job) < sint (MaxAttempts job)" "storable job"
    and lk: "\<And>k. lk (ID job) = Inr k \<Longrightarrow> same_config job k"
    using assms by (simp_all add: running_def)
  have same: "ID j = ID job \<and> storable j \<and> (\<forall>k. lk (ID j) = Inr k \<longrightarrow> same_config j k)"
    if "same_config j job" for j
  proof (intro conjI allI impI)
    show i: "ID j = ID job" using that by (simp add: same_config_def)
    have "Headers j = Headers job" "Body j = Body job" using that by (simp_all add: same_config_def)
    from storable_cong [OF this] job(3) show "storable j" by simp
    show "same_config j k" if "lk (ID j) = Inr k" for k
      using same_config_trans [OF \<open>same_config j job\<close> lk [of k]] that i by simp
  qed
  show "verdict lib inp job result = Reschedule j \<Longrightarrow> job_inv j \<and> ID j = ID job \<and> storable j
      \<and> same_config j job \<and> (\<forall>k. lk (ID j) = Inr k \<longrightarrow> same_config j k)"
    using verdict_jobs(1) [OF job(1,2), of lib inp result j] same [of j] by simp
  show "verdict lib inp job result = Stop j \<Longrightarrow> job_inv j \<and> ID j = ID job \<and> storable j
      \<and> same_config j job \<and> (\<forall>k. lk (ID j) = Inr k \<longrightarrow> same_config j k)"
    using verdict_jobs(2) [OF job(1,2), of lib inp result j] same [of j] by simp
qed

text \<open>The whole effect of the end of an execution, by its verdict, faults of the store included.\<close>

lemma finish_delete:
  assumes "inv s" "jobs_ok storable (look s)" "running storable (look s) job"
    and "finishJob lib st inp job result s = (out, s')" "verdict lib inp job result = Delete"
  shows "inv s' \<and> jobs_ok storable (look s')
      \<and> (\<forall>k. k \<noteq> ID job \<longrightarrow> look s' k = look s k \<and> due s' k = due s k)
    \<and> (out = OneShotDeleted \<and> look s' (ID job) = Inl ErrJobNotFound \<and> due s' (ID job) = None
      \<or> (\<exists>e. out = DeleteFailed e) \<and> (look s' (ID job) = look s (ID job) \<and> due s' (ID job) = due s (ID job)
          \<or> look s' (ID job) = Inl ErrJobNotFound \<and> due s' (ID job) = None))"
proof -
  have job: "job_inv job" using assms(3) by (simp add: running_def)
  obtain e s1 where d: "DeleteJob st (ID job) s = (e, s1)" by (rule prod.exhaust)
  with finishJob_verdict(1) [OF job assms(5), of st s] assms(4)
  have o: "out = (case e of None \<Rightarrow> OneShotDeleted | Some er \<Rightarrow> DeleteFailed er)" "s1 = s'"
    by (auto split: option.splits)
  show ?thesis
  proof (cases e)
    case None
    with delete_frame [OF assms(1) d] delete_jobs_ok [OF assms(1) d assms(2)]
      delete_ok [OF assms(1), of "ID job" s'] d o show ?thesis by simp
  next
    case (Some er)
    with delete_frame [OF assms(1) d] delete_jobs_ok [OF assms(1) d assms(2)]
      delete_fail [OF assms(1), of "ID job" er s'] d o show ?thesis by simp
  qed
qed

lemma finish_reschedule:
  assumes "inv s" "jobs_ok storable (look s)" "running storable (look s) job"
    and "finishJob lib st inp job result s = (out, s')" "verdict lib inp job result = Reschedule j"
  shows "inv s' \<and> jobs_ok storable (look s')
      \<and> (\<forall>k. k \<noteq> ID job \<longrightarrow> look s' k = look s k \<and> due s' k = due s k)
    \<and> ((\<exists>e. out = UpdateFailed e) \<and> due s' = due s
         \<and> look s' (ID job) \<in> {look s (ID job), Inr (merged (present (look s (ID job))) j)}
      \<or> (\<exists>e. out = RescheduleFailed e) \<and> due s' (ID job) \<in> {due s (ID job), Some (score (DueAtMs j))}
         \<and> look s' (ID job) = Inr (merged (present (look s (ID job))) j)
      \<or> out \<in> {Rescheduled (DueAtMs j), RetryScheduled (DueAtMs j)}
         \<and> due s' (ID job) = Some (score (DueAtMs j))
         \<and> look s' (ID job) = Inr (merged (present (look s (ID job))) j))"
proof -
  have job: "job_inv job" using assms(3) by (simp add: running_def)
  have j: "job_inv j" "storable j" "ID j = ID job" "\<And>k. look s (ID j) = Inr k \<Longrightarrow> same_config j k"
    using running_verdict(1) [OF assms(3,5)] by blast+
  obtain ok where "reschedule st ok j s = (out, s')" "ok \<in> {Rescheduled, RetryScheduled}"
    using finishJob_verdict(2) [OF job assms(5), of st s] assms(4) by auto
  with reschedule_effect [OF assms(1,2) j(1,2,4), of ok out s'] show ?thesis unfolding j(3) by blast
qed

lemma finish_stop:
  assumes "inv s" "jobs_ok storable (look s)" "running storable (look s) job"
    and "finishJob lib st inp job result s = (out, s')" "verdict lib inp job result = Stop j"
  shows "inv s' \<and> jobs_ok storable (look s')
      \<and> (\<forall>k. k \<noteq> ID job \<longrightarrow> look s' k = look s k \<and> due s' k = due s k)
    \<and> due s' = due s
    \<and> (\<exists>e. out \<in> {FinalFailure e, NonRetryable e}
         \<and> (look s' (ID job) = look s (ID job) \<and> e \<noteq> None
            \<or> look s' (ID job) = Inr (merged (present (look s (ID job))) j)))"
proof -
  have job: "job_inv job" using assms(3) by (simp add: running_def)
  have j: "job_inv j" "storable j" "ID j = ID job" "\<And>k. look s (ID j) = Inr k \<Longrightarrow> same_config j k"
    using running_verdict(2) [OF assms(3,5)] by blast+
  obtain ok where "(let (e, s1) = UpdateJob st j s in (ok e, s1)) = (out, s')"
      "ok \<in> {FinalFailure, NonRetryable}"
    using finishJob_verdict(3) [OF job assms(5), of st s] assms(4) by auto
  with stop_effect [OF assms(1,2) j(1,2,4), of ok out s'] show ?thesis unfolding j(3) by auto
qed

lemma finish_frame:
  assumes "inv s" "jobs_ok storable (look s)" "running storable (look s) job"
    and "finishJob lib st inp job result s = (out, s')"
  shows "inv s' \<and> jobs_ok storable (look s')
      \<and> (\<forall>k. k \<noteq> ID job \<longrightarrow> look s' k = look s k \<and> due s' k = due s k)"
proof (cases "verdict lib inp job result")
  case Delete
  from finish_delete [OF assms this] show ?thesis by blast
next
  case (Reschedule j)
  from finish_reschedule [OF assms this] show ?thesis by blast
next
  case (Stop j)
  from finish_stop [OF assms this] show ?thesis by blast
qed

lemma finish_no_panic:
  assumes "inv s" "jobs_ok storable (look s)" "running storable (look s) job"
    and "finishJob lib st inp job result s = (out, s')"
  shows "out \<noteq> Panicked \<and> out \<noteq> LoadFailed er"
proof (cases "verdict lib inp job result")
  case Delete
  from finish_delete [OF assms this] show ?thesis by auto
next
  case (Reschedule j)
  from finish_reschedule [OF assms this] show ?thesis by auto
next
  case (Stop j)
  from finish_stop [OF assms this] show ?thesis by auto
qed

end

end
