(* ===== verification/Execution.thy ===== *)
theory Execution
  imports Executor
begin

text \<open>
  What one execution means for the stored jobs, over the Redis store and any Redis service, faults
  included: success, retry, final failure, the bound on retries, and the request that is sent. The job
  was read when the execution began; the store may have changed since in any way that keeps it
  valid. The witnesses run on the reference server.
\<close>

abbreviation valid_store :: "golib \<Rightarrow> 'r RedisStore \<Rightarrow> redis_db \<Rightarrow> bool" where
  "valid_store lib rs d \<equiv> db_wf d \<and> jobs_ok (storable lib) (redis_look lib rs d)"

abbreviation held :: "golib \<Rightarrow> 'r RedisStore \<Rightarrow> redis_db \<Rightarrow> Job \<Rightarrow> bool" where
  "held lib rs d job \<equiv> running (storable lib) (redis_look lib rs d) job"

text \<open>The Redis store meets the contract, as a theorem about any Redis service.\<close>

context redis_store
begin

lemma meets_contract: "job_store (redis_Store lib rs) (\<lambda>s. redis_look lib rs (db s))
    (\<lambda>s. redis_due rs (db s)) (\<lambda>s. db_wf (db s)) (storable lib)"
  by (rule job_store_axioms)

end

lemmas redis_contract = redis_store.meets_contract [OF redis_store.intro]

subsection \<open>Jobs for concrete runs\<close>

definition sample_once :: Job where
  "sample_once = sample_job\<lparr>ID := ''j2'', Type := JobTypeOneShot, IntervalMs := 0\<rparr>"

lemma sample_url_ok: "url_ok ''http://a.io/x''"
  by code_simp

lemma sample_job_inv [simp]: "job_inv sample_job" "job_inv sample_once"
  using sample_url_ok
  by (simp_all add: sample_job_def sample_once_def job_inv_def job_config_ok_def AllowedMethods_def job_consts)

lemma sample_once_simps [simp]:
  "ID sample_once = ''j2''" "Type sample_once = JobTypeOneShot" "Attempt sample_once = 1"
  "MaxAttempts sample_once = 3" "storable plain_lib sample_once" "IntervalMs sample_once = 0"
  using sample_job_storable by (simp_all add: sample_once_def storable_def)

lemma sample_types [simp]: "JobTypeRecurring \<noteq> JobTypeOneShot"
  by (simp add: job_consts)

lemma ref_valid:
  assumes "storable plain_lib j" "job_inv j"
  shows "valid_store plain_lib ref_store (rdb (ref_created j))"
proof
  show "db_wf (rdb (ref_created j))" using ref_created(3) [OF assms(1)] .
  have "jobs_ok (storable plain_lib) (redis_look plain_lib ref_store (rdb ref_init))"
    by (simp add: jobs_ok_def ref_init_look)
  with ref_st.create_jobs_ok [of ref_init plain_lib j None "ref_created j"] ref_created(1) [OF assms(1)] assms
  show "jobs_ok (storable plain_lib) (redis_look plain_lib ref_store (rdb (ref_created j)))"
    by (simp add: store_ops ref_init_look)
qed

lemma ref_held:
  assumes "storable plain_lib j" "job_inv j" "sint (Attempt j) < sint (MaxAttempts j)"
  shows "held plain_lib ref_store (rdb (ref_created j)) j"
  using assms ref_created_look [OF assms(1) job_inv_interval [OF assms(2)]]
  by (simp add: running_def)

lemmas ref_sample = ref_valid [OF sample_job_storable sample_job_inv(1)]
  ref_held [OF sample_job_storable sample_job_inv(1)]

lemmas ref_once = ref_valid [OF sample_once_simps(5) sample_job_inv(2)]
  ref_held [OF sample_once_simps(5) sample_job_inv(2)]

definition sample_input :: exec_input where
  "sample_input = \<lparr>in_clock = \<lparr>t_unix = 1700000000, t_nsec = 0\<rparr>,
     in_retry_clock = \<lparr>t_unix = 1700000000, t_nsec = 5000000\<rparr>, in_draw = 7, in_key_order = [],
     in_do = (\<lambda>_. Inr 503)\<rparr>"

subsection \<open>Every execution\<close>

lemmas finish_frame = job_store.finish_frame [OF redis_contract]
lemmas finish_no_panic = job_store.finish_no_panic [OF redis_contract]
lemmas finish_delete = job_store.finish_delete [OF redis_contract]
lemmas finish_reschedule = job_store.finish_reschedule [OF redis_contract]
lemmas finish_stop = job_store.finish_stop [OF redis_contract]

text \<open>C2 However an execution ends, faults of the store included, the store stays valid: every entry
  is a valid job under its own id; no other job is touched; and the process does not panic.\<close>

theorem execution_keeps_store_valid:
  assumes "redis_service (client rs) db" "valid_store lib rs (db s)" "held lib rs (db s) job"
    and "finishJob lib (redis_Store lib rs) inp job result s = (out, s')"
  shows "valid_store lib rs (db s') \<and> out \<noteq> Panicked
    \<and> (k \<noteq> ID job \<longrightarrow> redis_look lib rs (db s') k = redis_look lib rs (db s) k
                     \<and> redis_due rs (db s') k = redis_due rs (db s) k)"
  using finish_frame [OF assms(1) _ _ assms(3,4)] finish_no_panic [OF assms(1) _ _ assms(3,4)] assms(2)
  by simp

theorem execution_keeps_store_valid_witness:
  "valid_store plain_lib ref_store (rdb (snd (finishJob plain_lib (redis_Store plain_lib ref_store)
     sample_input sample_job (Inr 503) (ref_created sample_job))))"
proof -
  have "sint (Attempt sample_job) < sint (MaxAttempts sample_job)" by simp
  from execution_keeps_store_valid [OF ref_service ref_sample(1) ref_sample(2) [OF this]]
  show ?thesis by (metis prod.collapse)
qed

subsection \<open>Success\<close>

text \<open>C10 A one-shot job answered with a 2xx status is deleted: when the deletion succeeds it can neither
  be read nor is it scheduled; when it reports an error both its hash and its schedule entry
  are as before or both are gone.\<close>

theorem one_shot_success_deletes:
  assumes "redis_service (client rs) db" "valid_store lib rs (db s)" "held lib rs (db s) job"
    and "finishJob lib (redis_Store lib rs) inp job (Inr c) s = (out, s')"
    and "Type job = JobTypeOneShot" "200 \<le> sint c" "sint c < 300"
  shows "out = OneShotDeleted \<and> redis_look lib rs (db s') (ID job) = Inl ErrJobNotFound
        \<and> redis_due rs (db s') (ID job) = None
    \<or> (\<exists>e. out = DeleteFailed e)
        \<and> (redis_look lib rs (db s') (ID job) = redis_look lib rs (db s) (ID job)
              \<and> redis_due rs (db s') (ID job) = redis_due rs (db s) (ID job)
           \<or> redis_look lib rs (db s') (ID job) = Inl ErrJobNotFound
              \<and> redis_due rs (db s') (ID job) = None)"
proof -
  have "verdict lib inp job (Inr c) = Delete" using assms(5-7) by (simp add: verdict_delete)
  from finish_delete [OF assms(1) _ _ assms(3,4) this] assms(2) show ?thesis by simp
qed

lemma ref_delete_ok:
  "faults s = [] \<Longrightarrow> RedisStore_DeleteJob ref_store i s
     = (None, snd (RedisStore_DeleteJob ref_store i s))"
  by (simp add: RedisStore_DeleteJob_def ref_run_ok)

theorem one_shot_success_deletes_witness:
  "\<exists>s'. finishJob plain_lib (redis_Store plain_lib ref_store) sample_input sample_once (Inr 204)
      (ref_created sample_once) = (OneShotDeleted, s')
    \<and> redis_look plain_lib ref_store (rdb s') ''j2'' = Inl ErrJobNotFound
    \<and> redis_due ref_store (rdb s') ''j2'' = None"
proof -
  have att: "sint (Attempt sample_once) < sint (MaxAttempts sample_once)" by simp
  obtain s' where "RedisStore_DeleteJob ref_store ''j2'' (ref_created sample_once) = (None, s')"
    using ref_delete_ok [OF ref_created(2), of sample_once "''j2''"] by simp
  then have fin: "finishJob plain_lib (redis_Store plain_lib ref_store) sample_input sample_once (Inr 204)
      (ref_created sample_once) = (OneShotDeleted, s')"
    by (simp add: finishJob_cases handleExecutionSuccess_def store_ops)
  from one_shot_success_deletes [OF ref_service ref_once(1) ref_once(2) [OF att] fin] fin
  show ?thesis by simp
qed

text \<open>What the outcome says about the branch taken.\<close>

lemma success_outcomes:
  "200 \<le> sint c \<Longrightarrow> sint c < 300 \<Longrightarrow> finishJob lib st inp job (Inr c) s \<noteq> (RetryScheduled d, s')"
  by (auto simp: finishJob_cases handleExecutionSuccess_def Let_def
      split: prod.splits option.splits if_splits)

lemma merged_present_same:
  assumes "same_config j job" "job_inv j" "\<And>k. r = Inr k \<Longrightarrow> same_config job k"
  shows "same_config (merged (present r) j) job"
proof (cases r)
  case (Inl e)
  then show ?thesis using assms by (simp add: merged_None job_inv_interval)
next
  case (Inr k)
  then show ?thesis
    using same_config_merged [OF same_config_trans [OF assms(1,3)] assms(2)] assms(1)
    by (auto intro: same_config_trans)
qed

text \<open>C4 A recurring job answered with a 2xx status is stored pending, unattempted and due one interval
  after its previous due time, and scheduled then, or the log says which Redis call failed; a
  failed write leaves the schedule alone, so the job then has no next run. The error and
  the HTTP code the store had are still there after a success, although the code clears them.\<close>

theorem recurring_success_reschedules:
  assumes "redis_service (client rs) db" "valid_store lib rs (db s)" "held lib rs (db s) job"
    and "finishJob lib (redis_Store lib rs) inp job (Inr c) s = (out, s')"
    and "Type job = JobTypeRecurring" "200 \<le> sint c" "sint c < 300"
  shows "(\<exists>e. out = UpdateFailed e) \<and> redis_due rs (db s') = redis_due rs (db s)
    \<or> (out = Rescheduled (DueAtMs job + IntervalMs job)
          \<and> redis_due rs (db s') (ID job) = Some (score (DueAtMs job + IntervalMs job))
       \<or> (\<exists>e. out = RescheduleFailed e) \<and> redis_due rs (db s') (ID job)
            \<in> {redis_due rs (db s) (ID job), Some (score (DueAtMs job + IntervalMs job))})
      \<and> (\<exists>j. redis_look lib rs (db s') (ID job) = Inr j \<and> same_config j job
          \<and> DueAtMs j = DueAtMs job + IntervalMs job \<and> Attempt j = 0 \<and> Status j = JobStatusPending
          \<and> (\<forall>old. redis_look lib rs (db s) (ID job) = Inr old \<longrightarrow>
               LastError j = LastError old \<and> LastHTTPCode j = LastHTTPCode old))"
proof -
  define j where "j = success_job inp job"
  define r where "r = redis_look lib rs (db s) (ID job)"
  have v: "verdict lib inp job (Inr c) = Reschedule j" using assms(5-7) by (simp add: verdict_def j_def)
  have job: "job_inv job" and same: "\<And>k. r = Inr k \<Longrightarrow> same_config job k"
    using assms(3) by (auto simp: running_def r_def)
  have inv: "job_inv j" using outcome_job_inv(1) [OF job] assms(5) by (simp add: j_def)
  have "same_config (merged (present r) j) job"
    using merged_present_same [OF outcome_same_config(1) [of inp job, folded j_def] inv same] .
  moreover have "DueAtMs (merged (present r) j) = DueAtMs job + IntervalMs job"
    "Attempt (merged (present r) j) = 0" "Status (merged (present r) j) = JobStatusPending"
    by (simp_all add: j_def success_job_def)
  moreover have "r = Inr old \<longrightarrow> LastError (merged (present r) j) = LastError old
      \<and> LastHTTPCode (merged (present r) j) = LastHTTPCode old" for old
    by (auto simp: j_def success_job_def merged_def)
  moreover have "out \<noteq> RetryScheduled d" for d
    using success_outcomes [OF assms(6,7)] assms(4) by metis
  ultimately show ?thesis
    using finish_reschedule [OF assms(1) _ _ assms(3,4) v] assms(2)
    by (auto simp: j_def r_def)
qed

lemma ref_reschedule_ok:
  assumes "storable plain_lib j" "faults s = []"
  shows "\<exists>s'. reschedule (redis_Store plain_lib ref_store) ok j s = (ok (DueAtMs j), s')"
  using assms by (simp add: reschedule_def store_ops RedisStore_UpdateJob_def RedisStore_AddToSchedule_def
      serializeJob_storable ref_run_ok)

theorem recurring_success_reschedules_witness:
  "\<exists>s' j. finishJob plain_lib (redis_Store plain_lib ref_store) sample_input sample_job (Inr 200)
      (ref_created sample_job) = (Rescheduled 1500, s')
    \<and> redis_due ref_store (rdb s') ''j1'' = Some (score 1500)
    \<and> redis_look plain_lib ref_store (rdb s') ''j1'' = Inr j \<and> LastError j = ''HTTP 500''"
proof -
  have att: "sint (Attempt sample_job) < sint (MaxAttempts sample_job)" by simp
  have "storable plain_lib (success_job sample_input sample_job)"
    using sample_job_storable by (simp add: storable_def)
  from ref_reschedule_ok [OF this ref_created(2) [OF sample_job_storable], of Rescheduled]
  obtain s' where fin: "finishJob plain_lib (redis_Store plain_lib ref_store) sample_input sample_job
      (Inr 200) (ref_created sample_job) = (Rescheduled 1500, s')"
    by (auto simp: finishJob_cases success_recurring_eq)
  have "redis_look plain_lib ref_store (rdb (ref_created sample_job)) ''j1'' = Inr sample_job"
    using ref_created_look [OF sample_job_storable] by simp
  with recurring_success_reschedules [OF ref_service ref_sample(1) ref_sample(2) [OF att] fin] fin
  show ?thesis by auto
qed

subsection \<open>Failure\<close>

text \<open>The answers after which the code retries: no answer, or a status that is neither 2xx nor a 4xx
  other than 429.\<close>

fun retryable :: "string + i64 \<Rightarrow> bool" where
  "retryable (Inl e) = True"
| "retryable (Inr c) \<longleftrightarrow> \<not> (200 \<le> sint c \<and> sint c < 300)
     \<and> \<not> (400 \<le> sint c \<and> sint c < 500 \<and> sint c \<noteq> 429)"

lemma verdict_retryable:
  "retryable result \<Longrightarrow> \<exists>m c. verdict lib inp job result = failure_verdict lib inp job m c
     \<and> finishJob lib st inp job result s = handleExecutionFailure lib st inp job m c s"
  by (cases result) (auto simp: verdict_def finishJob_cases)

lemma retry_delay_bounds: "0 < sint (BackoffBaseMs job) \<Longrightarrow>
  0 < retry_delay job draw \<and> retry_delay job draw \<le> 600250"
proof -
  assume "0 < sint (BackoffBaseMs job)"
  then have "0 < sint (BackoffBaseMs job) * 2 ^ nat (max 1 (sint (Attempt job + 1)) - 1)" by simp
  then show ?thesis
    using pos_mod_bound [of 251 draw] pos_mod_sign [of 251 draw]
    unfolding retry_delay_def MaxBackoffMs_def min_def by auto
qed

lemma failure_verdict_retry:
  assumes "0 < sint (BackoffBaseMs job)" "sint (Attempt job + 1) < sint (MaxAttempts job)"
  shows "\<exists>b. failure_verdict lib inp job m c = Reschedule (retry_job inp job m c b)
    \<and> sint b = retry_delay job (int (in_draw inp))"
  using backoff_of_job [OF assms(1), of lib "in_draw inp"] assms(2)
  by (auto simp: failure_verdict_def)

lemma failure_outcomes:
  "handleExecutionFailure lib st inp job m c s \<noteq> (Rescheduled d, s')"
  "handleExecutionFailure lib st inp job m c s \<noteq> (NonRetryable e, s')"
  by (auto simp: handleExecutionFailure_def Let_def split: prod.splits option.splits if_splits)

lemma retry_time:
  assumes "0 \<le> sint now" "sint now < 2 ^ 62" "0 < sint b" "sint b \<le> 600250"
  shows "sint (now + b :: i64) = sint now + sint b"
  using assms by (intro sint_add_i64) simp_all

text \<open>C5 After no answer, a 5xx, a 429 or any other status that is neither 2xx nor 4xx, a job with more
  than one attempt left is stored pending with one more attempt and scheduled for the end of the
  retry delay, counted from the second clock reading: the base doubled once per attempt and capped
  at ten minutes, plus a jitter of at most 250 ms. If a Redis call fails the log says so, and
  a failed write leaves the schedule alone: the job then has no next run.\<close>

theorem failure_schedules_retry:
  assumes "redis_service (client rs) db" "valid_store lib rs (db s)" "held lib rs (db s) job"
    and "finishJob lib (redis_Store lib rs) inp job result s = (out, s')"
    and "retryable result" "sint (Attempt job) + 1 < sint (MaxAttempts job)"
    and "0 \<le> sint (NowMs (in_retry_clock inp))" "sint (NowMs (in_retry_clock inp)) < 2 ^ 62"
  shows "(\<exists>e. out = UpdateFailed e) \<and> redis_due rs (db s') = redis_due rs (db s)
    \<or> (\<exists>d. sint d = sint (NowMs (in_retry_clock inp)) + retry_delay job (int (in_draw inp))
        \<and> 0 < retry_delay job (int (in_draw inp)) \<and> retry_delay job (int (in_draw inp)) \<le> 600250
        \<and> (out = RetryScheduled d \<and> redis_due rs (db s') (ID job) = Some (score d)
           \<or> (\<exists>e. out = RescheduleFailed e)
               \<and> redis_due rs (db s') (ID job) \<in> {redis_due rs (db s) (ID job), Some (score d)})
        \<and> (\<exists>j. redis_look lib rs (db s') (ID job) = Inr j \<and> same_config j job
             \<and> DueAtMs j = d \<and> Attempt j = Attempt job + 1 \<and> Status j = JobStatusPending))"
proof -
  obtain m c where v: "verdict lib inp job result = failure_verdict lib inp job m c"
    and h: "finishJob lib (redis_Store lib rs) inp job result s
      = handleExecutionFailure lib (redis_Store lib rs) inp job m c s"
    using verdict_retryable [OF assms(5), of lib inp job "redis_Store lib rs" s] by blast
  have job: "job_inv job" "sint (Attempt job) < sint (MaxAttempts job)"
    and same: "\<And>k. redis_look lib rs (db s) (ID job) = Inr k \<Longrightarrow> same_config job k"
    using assms(3) by (auto simp: running_def)
  have base: "0 < sint (BackoffBaseMs job)" using job(1) by (simp add: job_inv_def job_config_ok_def)
  note delay = retry_delay_bounds [OF base, of "int (in_draw inp)"]
  have att: "sint (Attempt job + 1) < sint (MaxAttempts job)" using attempt_inc [OF job(2)] assms(6) by simp
  obtain b where b: "failure_verdict lib inp job m c = Reschedule (retry_job inp job m c b)"
      "sint b = retry_delay job (int (in_draw inp))"
    using failure_verdict_retry [OF base att] by blast
  define j where "j = retry_job inp job m c b"
  have d: "sint (DueAtMs j) = sint (NowMs (in_retry_clock inp)) + retry_delay job (int (in_draw inp))"
    using retry_time [OF assms(7,8), of b] delay b(2) by (simp add: j_def retry_job_def)
  have "job_inv j" using outcome_job_inv(3) [OF job(1) att job(2)] by (simp add: j_def)
  from merged_present_same [OF outcome_same_config(3) [of inp job m c b, folded j_def] this same]
  have mj: "same_config (merged (present (redis_look lib rs (db s) (ID job))) j) job"
    "Attempt (merged (present (redis_look lib rs (db s) (ID job))) j) = Attempt job + 1"
    "Status (merged (present (redis_look lib rs (db s) (ID job))) j) = JobStatusPending"
    using verdict_jobs(1) [OF job, of lib inp result j] b v by (auto simp: j_def retry_job_def)
  have "out \<noteq> Rescheduled x" for x using failure_outcomes(1) assms(4) unfolding h by metis
  with finish_reschedule [OF assms(1) _ _ assms(3,4), of j] v b(1) mj d delay assms(2)
  show ?thesis unfolding j_def [symmetric] by auto
qed

lemma sample_clock: "NowMs (in_retry_clock sample_input) = 1700000000005"
  by (simp add: NowMs_def sample_input_def UnixMilli_def)

lemma sample_config [simp]: "same_config sample_job sample_job" "BackoffBaseMs sample_job = 100"
  by (simp_all add: sample_job_def)

lemma sample_retry_run:
  "\<exists>d s'. finishJob plain_lib (redis_Store plain_lib ref_store) sample_input sample_job (Inr 503)
      (ref_created sample_job) = (RetryScheduled d, s')"
proof -
  obtain b where b: "CalculateBackoff plain_lib (in_draw sample_input) (Attempt sample_job + 1)
      (BackoffBaseMs sample_job) DefaultJitterMaxMs = Some b"
    using backoff_of_job [of sample_job plain_lib "in_draw sample_input"] by auto
  define j where "j = retry_job sample_input sample_job (''HTTP '' @ FormatInt 503) 503 b"
  have "storable plain_lib j" using sample_job_storable by (simp add: storable_def retry_job_def j_def)
  moreover have "finishJob plain_lib (redis_Store plain_lib ref_store) sample_input sample_job (Inr 503)
      (ref_created sample_job)
    = reschedule (redis_Store plain_lib ref_store) RetryScheduled j (ref_created sample_job)"
    unfolding j_def by (subst finishJob_cases(4)) (simp_all add: failure_retry_eq [OF _ b])
  ultimately show ?thesis
    using ref_reschedule_ok [OF _ ref_created(2) [OF sample_job_storable]] by metis
qed

theorem failure_schedules_retry_witness:
  "\<exists>d s' j. finishJob plain_lib (redis_Store plain_lib ref_store) sample_input sample_job (Inr 503)
      (ref_created sample_job) = (RetryScheduled d, s')
    \<and> redis_look plain_lib ref_store (rdb s') ''j1'' = Inr j \<and> Attempt j = 2
    \<and> 1700000000005 < sint d \<and> sint d \<le> 1700000000005 + 600250"
proof -
  obtain d s' where fin: "finishJob plain_lib (redis_Store plain_lib ref_store) sample_input sample_job
      (Inr 503) (ref_created sample_job) = (RetryScheduled d, s')"
    using sample_retry_run by blast
  have att: "sint (Attempt sample_job) < sint (MaxAttempts sample_job)" by simp
  have "retryable (Inr 503)" "sint (Attempt sample_job) + 1 < sint (MaxAttempts sample_job)" by simp_all
  from failure_schedules_retry [OF ref_service ref_sample(1) ref_sample(2) [OF att] fin this] fin
  show ?thesis by (auto simp: sample_clock)
qed

text \<open>C9 A job, one-shot or recurring alike, whose last attempt failed, or that was answered with a 4xx other
  than 429, is stored as failed with its attempts used up, and is never put on the schedule: a
  recurring job has no next run after such a failure. When the write is reported as failed, the
  entry is the old one or already the failed one.\<close>

theorem final_failure_not_scheduled:
  assumes "redis_service (client rs) db" "valid_store lib rs (db s)" "held lib rs (db s) job"
    and "finishJob lib (redis_Store lib rs) inp job result s = (out, s')"
    and "retryable result \<and> sint (MaxAttempts job) \<le> sint (Attempt job) + 1
       \<or> (\<exists>c. result = Inr c \<and> 400 \<le> sint c \<and> sint c < 500 \<and> sint c \<noteq> 429)"
  shows "redis_due rs (db s') = redis_due rs (db s)
    \<and> (\<exists>e. out \<in> {FinalFailure e, NonRetryable e}
        \<and> (redis_look lib rs (db s') (ID job) = redis_look lib rs (db s) (ID job) \<and> e \<noteq> None
           \<or> (\<exists>j. redis_look lib rs (db s') (ID job) = Inr j \<and> same_config j job
                \<and> Status j = JobStatusFailed \<and> Attempt j = MaxAttempts job)))"
proof -
  have job: "job_inv job" "sint (Attempt job) < sint (MaxAttempts job)"
    and same: "\<And>k. redis_look lib rs (db s) (ID job) = Inr k \<Longrightarrow> same_config job k"
    using assms(3) by (auto simp: running_def)
  have "\<exists>j. verdict lib inp job result = Stop j"
    using assms(5) attempt_inc [OF job(2)]
    by (cases result) (auto simp: verdict_def failure_verdict_def)
  then obtain j where v: "verdict lib inp job result = Stop j" by blast
  note j = verdict_jobs(2) [OF job v]
  have "same_config (merged (present (redis_look lib rs (db s) (ID job))) j) job"
    using merged_present_same [OF _ _ same] j by blast
  moreover have "Attempt j = MaxAttempts job"
    using j by (auto simp: job_inv_def job_consts same_config_def)
  ultimately show ?thesis
    using finish_stop [OF assms(1) _ _ assms(3,4) v] assms(2) j by auto
qed

subsection \<open>From loading to the outcome\<close>

context job_store
begin

lemma execute_cases:
  assumes "inv s" "jobs_ok storable (look s)" "look s i = Inr job"
    and "sint (Attempt job) < sint (MaxAttempts job)" "executeJob lib st inp i s = (out, s')"
  shows "(\<exists>e. out = LoadFailed e) \<and> inv s' \<and> look s' = look s \<and> due s' = due s
    \<or> (\<exists>s1 result. inv s1 \<and> look s1 = look s \<and> due s1 = due s \<and> ID job = i
        \<and> running storable (look s1) job \<and> finishJob lib st inp job result s1 = (out, s'))"
proof -
  have en: "ID job = i" "job_inv job" "storable job"
    using assms(2,3) unfolding jobs_ok_def by (metis entry_ok_simps(2))+
  obtain r s1 where g: "GetJob st i s = (r, s1)" by (rule prod.exhaust)
  note fr = get_frame [OF assms(1) g]
  have run: "running storable (look s1) job"
    using en fr assms(3,4) by (simp add: running_def)
  show ?thesis
  proof (cases r)
    case (Inl e)
    with assms(5) have "LoadFailed e = out" "s1 = s'" by (simp_all add: executeJob_def g)
    with fr show ?thesis by blast
  next
    case (Inr j)
    with get_found [OF assms(1), of i j s1] g assms(3) have "j = job" by simp
    with Inr assms(5) have "\<exists>result. finishJob lib st inp job result s1 = (out, s')"
      by (auto simp: executeJob_def g finishJob_cases(1) [symmetric] split: sum.splits)
    with fr run en(1) show ?thesis by blast
  qed
qed

lemma retry_progress:
  assumes "inv s" "jobs_ok storable (look s)" "running storable (look s) job"
    and "finishJob lib st inp job result s = (RetryScheduled d, s')"
  shows "\<exists>j. look s' (ID job) = Inr j \<and> sint (Attempt j) = sint (Attempt job) + 1
    \<and> MaxAttempts j = MaxAttempts job \<and> sint (Attempt j) < sint (MaxAttempts j)"
proof -
  have job: "job_inv job" "sint (Attempt job) < sint (MaxAttempts job)" using assms(3) by (simp_all add: running_def)
  have "verdict lib inp job result \<noteq> Delete" using finish_delete [OF assms] by auto
  moreover have "verdict lib inp job result \<noteq> Stop j" for j using finish_stop [OF assms] by auto
  ultimately obtain j where v: "verdict lib inp job result = Reschedule j"
    by (cases "verdict lib inp job result") auto
  have "\<not> (\<exists>c. result = Inr c \<and> 200 \<le> sint c \<and> sint c < 300)" using success_outcomes assms(4) by metis
  with v have "\<exists>m c b. j = retry_job inp job m c b \<and> sint (Attempt job + 1) < sint (MaxAttempts job)"
    by (auto simp: verdict_def failure_verdict_def split: sum.splits if_splits)
  then have "sint (Attempt j) = sint (Attempt job) + 1" "MaxAttempts j = MaxAttempts job"
      "sint (Attempt j) < sint (MaxAttempts j)"
    using attempt_inc [OF job(2)] by (auto simp: retry_job_def)
  moreover have "look s' (ID job) = Inr (merged (present (look s (ID job))) j)"
    using finish_reschedule [OF assms v] by auto
  ultimately show ?thesis by simp
qed

end

text \<open>The executions of one job, one after the other, by whatever the inputs decide.\<close>

fun run_executions ::
    "golib \<Rightarrow> 's Store \<Rightarrow> string \<Rightarrow> exec_input list \<Rightarrow> 's \<Rightarrow> exec_outcome list \<times> 's" where
  "run_executions lib st i [] s = ([], s)"
| "run_executions lib st i (inp # inps) s =
     (let (out, s1) = executeJob lib st inp i s; (outs, s2) = run_executions lib st i inps s1
      in (out # outs, s2))"

definition is_retry :: "exec_outcome \<Rightarrow> bool" where
  "is_retry out \<longleftrightarrow> (case out of RetryScheduled d \<Rightarrow> True | _ \<Rightarrow> False)"

lemma is_retry_iff: "is_retry out \<longleftrightarrow> (\<exists>d. out = RetryScheduled d)"
  by (cases out) (simp_all add: is_retry_def)

context job_store
begin

lemma retries_end:
  "inv s \<Longrightarrow> jobs_ok storable (look s) \<Longrightarrow> look s i = Inr job \<Longrightarrow>
     sint (Attempt job) < sint (MaxAttempts job) \<Longrightarrow> run_executions lib st i inps s = (outs, s') \<Longrightarrow>
     list_all is_retry outs \<Longrightarrow> int (length inps) < sint (MaxAttempts job) - sint (Attempt job)"
proof (induction inps arbitrary: s job outs s')
  case Nil
  then show ?case by simp
next
  case (Cons inp inps)
  obtain out s1 where e: "executeJob lib st inp i s = (out, s1)" by (rule prod.exhaust)
  obtain outs1 s2 where r: "run_executions lib st i inps s1 = (outs1, s2)" by (rule prod.exhaust)
  from Cons.prems(5) have o: "outs = out # outs1" "s' = s2" by (simp_all add: e r)
  with Cons.prems(6) obtain d where d: "out = RetryScheduled d" by (auto simp: is_retry_iff)
  from execute_cases [OF Cons.prems(1-4) e] d obtain s0 result where
    f: "inv s0" "jobs_ok storable (look s0)" "running storable (look s0) job"
       "finishJob lib st inp job result s0 = (RetryScheduled d, s1)" and i: "ID job = i"
    using Cons.prems(2) by auto
  from retry_progress [OF f] obtain j where j: "look s1 i = Inr j"
    "sint (Attempt j) = sint (Attempt job) + 1" "MaxAttempts j = MaxAttempts job"
    "sint (Attempt j) < sint (MaxAttempts j)" by (auto simp: i)
  from finish_frame [OF f] have "inv s1" "jobs_ok storable (look s1)" by simp_all
  from Cons.IH [OF this j(1,4) r] Cons.prems(6) o j(2,3) show ?case by simp
qed

end

lemmas execute_cases = job_store.execute_cases [OF redis_contract]
lemmas retries_end = job_store.retries_end [OF redis_contract]

lemma ref_get_ok:
  "faults s = [] \<Longrightarrow> RedisStore_GetJob lib ref_store i s = (redis_look lib ref_store (rdb s) i, s)"
  by (simp add: RedisStore_GetJob_def ref_store_def ref_exec_def redis_run.simps redis_look_def Let_def)

text \<open>A webhook that reaches a server, in a run of the sample job.\<close>

lemma sample_request_check: "new_request_check plain_lib ''PUT'' ''http://a.io/x'' = Inr ''PUT''"
proof -
  have "list_all is_token_char ''PUT''" by code_simp
  moreover obtain p where "Parse ''http://a.io/x'' = Inr p"
    using sample_url_ok by (auto simp: url_ok_def split: sum.splits)
  ultimately show ?thesis by (simp add: new_request_check_def)
qed

lemma sample_fields [simp]: "Method sample_job = ''PUT''" "Body sample_job = None"
  "TimeoutMs sample_job = 5000" "Headers sample_job = Some Map.empty"
  by (simp_all add: sample_job_def)

lemma sample_webhook_call:
  "doWebhook plain_lib (sample_input\<lparr>in_do := (\<lambda>_. answer)\<rparr>) sample_job
     = map_err (\<lambda>e. ''request failed: '' @ e) answer"
  by (simp add: doWebhook_def build_request_def sample_request_check sample_input_def Let_def)

lemma sample_execute:
  assumes "faults s = []" "redis_look plain_lib ref_store (rdb s) ''j1'' = Inr sample_job"
  shows "executeJob plain_lib (redis_Store plain_lib ref_store) (sample_input\<lparr>in_do := (\<lambda>_. Inr c)\<rparr>) ''j1'' s
    = finishJob plain_lib (redis_Store plain_lib ref_store) (sample_input\<lparr>in_do := (\<lambda>_. Inr c)\<rparr>) sample_job (Inr c) s"
proof -
  obtain dom where "ExtractDomain plain_lib ''http://a.io/x'' = Inr dom"
    using sample_url_ok by (auto simp: url_ok_def ExtractDomain_def split: sum.splits)
  then show ?thesis
    using assms by (simp add: executeJob_def store_ops ref_get_ok sample_webhook_call)
qed

lemma sample_input_503: "sample_input\<lparr>in_do := (\<lambda>_. Inr 503)\<rparr> = sample_input"
  by (simp add: sample_input_def)

lemma ref_created_look_sample:
  "redis_look plain_lib ref_store (rdb (ref_created sample_job)) ''j1'' = Inr sample_job"
  using ref_created_look [OF sample_job_storable] by simp

text \<open>C11 The retry budget: however the executions of a job go, fewer of them in a row are followed by a
  retry than the job has attempts left, so with no success the job ends in a final failure,
  or in a failed Redis call, after at most the attempts it was given.\<close>

theorem retries_bounded:
  assumes "redis_service (client rs) db" "valid_store lib rs (db s)"
    and "redis_look lib rs (db s) i = Inr job" "sint (Attempt job) < sint (MaxAttempts job)"
    and "run_executions lib (redis_Store lib rs) i inps s = (outs, s')" "list_all is_retry outs"
  shows "int (length inps) < sint (MaxAttempts job) - sint (Attempt job)"
  using retries_end [OF assms(1) _ _ assms(3-6)] assms(2) by simp

theorem retries_bounded_witness:
  "\<exists>out s'. run_executions plain_lib (redis_Store plain_lib ref_store) ''j1'' [sample_input]
      (ref_created sample_job) = ([out], s') \<and> is_retry out
    \<and> int (length [sample_input]) < sint (MaxAttempts sample_job) - sint (Attempt sample_job)"
proof -
  obtain d s' where "finishJob plain_lib (redis_Store plain_lib ref_store) sample_input sample_job (Inr 503)
      (ref_created sample_job) = (RetryScheduled d, s')"
    using sample_retry_run by blast
  with sample_execute [OF ref_created(2) [OF sample_job_storable] ref_created_look_sample, of 503]
  have run: "run_executions plain_lib (redis_Store plain_lib ref_store) ''j1'' [sample_input]
      (ref_created sample_job) = ([RetryScheduled d], s')"
    by (simp add: sample_input_503)
  have "list_all is_retry [RetryScheduled d]" by (simp add: is_retry_iff)
  from retries_bounded [OF ref_service ref_sample(1) ref_created_look_sample _ run this] run
  show ?thesis by (auto simp: is_retry_iff)
qed

text \<open>C12 A failed Redis call strands a job: when loading it or storing its next run fails, a job that
  the poll took off the schedule stays off it, although it is still stored as pending. No later
  poll returns it.\<close>

theorem failed_call_strands_job:
  assumes "redis_service (client rs) db" "valid_store lib rs (db s)"
    and "redis_look lib rs (db s) i = Inr job" "sint (Attempt job) < sint (MaxAttempts job)"
    and "redis_due rs (db s) i = None"
    and "executeJob lib (redis_Store lib rs) inp i s = (out, s')"
    and "(\<exists>e. out = LoadFailed e) \<or> (\<exists>e. out = UpdateFailed e)"
  shows "redis_due rs (db s') i = None
    \<and> (\<exists>j. redis_look lib rs (db s') i = Inr j \<and> Status j = JobStatusPending)"
proof -
  have job: "job_inv job" using assms(2,3) unfolding jobs_ok_def by (metis entry_ok_simps(2))
  have pend: "Status job = JobStatusPending" using job assms(4) by (auto simp: job_inv_def)
  from assms(2) have wf: "db_wf (db s)" "jobs_ok (storable lib) (redis_look lib rs (db s))" by simp_all
  from execute_cases [OF assms(1) wf assms(3,4,6)] show ?thesis
  proof (elim disjE exE conjE)
    fix e assume "redis_look lib rs (db s') = redis_look lib rs (db s)"
      "redis_due rs (db s') = redis_due rs (db s)"
    with assms(3,5) pend show ?thesis by simp
  next
    fix s1 result
    assume s1: "db_wf (db s1)" "redis_look lib rs (db s1) = redis_look lib rs (db s)"
      "redis_due rs (db s1) = redis_due rs (db s)" and i: "ID job = i"
      and run: "held lib rs (db s1) job"
      and fin: "finishJob lib (redis_Store lib rs) inp job result s1 = (out, s')"
    have ok: "jobs_ok (storable lib) (redis_look lib rs (db s1))" using s1(2) wf(2) by simp
    have up: "\<exists>e. out = UpdateFailed e"
      using finish_no_panic [OF assms(1) s1(1) ok run fin] assms(7) by auto
    have "verdict lib inp job result \<noteq> Delete" "\<And>j. verdict lib inp job result \<noteq> Stop j"
      using finish_delete [OF assms(1) s1(1) ok run fin] finish_stop [OF assms(1) s1(1) ok run fin] up
      by auto
    then obtain j where v: "verdict lib inp job result = Reschedule j"
      by (cases "verdict lib inp job result") auto
    have "Status j = JobStatusPending" using verdict_jobs(1) [OF job assms(4) v] by simp
    then show ?thesis
      using finish_reschedule [OF assms(1) s1(1) ok run fin v] up s1(2,3) assms(3,5) pend i by auto
  qed
qed

text \<open>The sample job as the poll leaves it, with a script of faults for what follows.\<close>

definition ref_polled :: "fault list \<Rightarrow> ref_server" where
  "ref_polled fs = (snd (RedisStore_RemoveFromSchedule ref_store ''j1'' (ref_created sample_job)))\<lparr>faults := fs\<rparr>"

lemma ref_polled:
  "valid_store plain_lib ref_store (rdb (ref_polled fs))"
  "redis_look plain_lib ref_store (rdb (ref_polled fs)) ''j1'' = Inr sample_job"
  "redis_due ref_store (rdb (ref_polled fs)) ''j1'' = None"
proof -
  obtain s' where rem: "RedisStore_RemoveFromSchedule ref_store ''j1'' (ref_created sample_job) = (None, s')"
    using ref_created(2) [OF sample_job_storable]
    by (simp add: RedisStore_RemoveFromSchedule_def ref_run_ok)
  then have rdb: "rdb (ref_polled fs) = rdb s'" by (simp add: ref_polled_def)
  from rem have "RemoveFromSchedule (redis_Store plain_lib ref_store) ''j1'' (ref_created sample_job) = (None, s')"
    by (simp add: store_ops)
  from ref_st.remove_frame [OF _ this] ref_st.remove_ok [OF _ this] ref_sample(1)
  show "valid_store plain_lib ref_store (rdb (ref_polled fs))"
    "redis_look plain_lib ref_store (rdb (ref_polled fs)) ''j1'' = Inr sample_job"
    "redis_due ref_store (rdb (ref_polled fs)) ''j1'' = None"
    by (simp_all add: rdb ref_created_look_sample)
qed

theorem final_failure_not_scheduled_witness:
  "Type sample_job = JobTypeRecurring
   \<and> redis_due ref_store (rdb (snd (finishJob plain_lib (redis_Store plain_lib ref_store) sample_input
        sample_job (Inr 404) (ref_polled [])))) ''j1'' = None"
proof -
  have att: "sint (Attempt sample_job) < sint (MaxAttempts sample_job)" by simp
  have id: "ID sample_job = ''j1''" by simp
  have held: "held plain_lib ref_store (rdb (ref_polled [])) sample_job"
    using ref_sample(2) [OF att] ref_polled(2) id by (simp add: running_def)
  obtain out s' where fin: "finishJob plain_lib (redis_Store plain_lib ref_store) sample_input sample_job
      (Inr 404) (ref_polled []) = (out, s')" by (rule prod.exhaust)
  from final_failure_not_scheduled [OF ref_service ref_polled(1) held fin] fin ref_polled(3)
  show ?thesis by simp
qed

theorem failed_call_strands_job_witness:
  "\<exists>s' j. executeJob plain_lib (redis_Store plain_lib ref_store) sample_input ''j1'' (ref_polled [Lost])
      = (LoadFailed (RedisFailed ''failed to get job'' ''connection refused''), s')
    \<and> redis_due ref_store (rdb s') ''j1'' = None
    \<and> redis_look plain_lib ref_store (rdb s') ''j1'' = Inr j \<and> Status j = JobStatusPending"
proof -
  have f: "faults (ref_polled [Lost]) = [Lost]" by (simp add: ref_polled_def)
  then obtain s' where ex: "executeJob plain_lib (redis_Store plain_lib ref_store) sample_input ''j1''
      (ref_polled [Lost]) = (LoadFailed (RedisFailed ''failed to get job'' ''connection refused''), s')"
    by (simp add: executeJob_def store_ops RedisStore_GetJob_def ref_store_def ref_exec_def split_beta)
  have att: "sint (Attempt sample_job) < sint (MaxAttempts sample_job)" by simp
  from failed_call_strands_job [OF ref_service ref_polled(1,2) att ref_polled(3) ex] ex
  show ?thesis by auto
qed

subsection \<open>The request\<close>

lemma user_headers_source:
  "user_headers hs ks h k = Some v \<Longrightarrow>
     h k = Some v \<or> (\<exists>u. hs u = Some v \<and> CanonicalKey u = k)"
  unfolding user_headers_def
proof (induction ks arbitrary: h)
  case (Cons u ks)
  from Cons.IH [OF Cons.prems [unfolded fold_Cons comp_apply]] show ?case
    by (auto simp: set_header_def split: option.splits if_splits)
qed simp

lemma user_headers_keep: "h k \<noteq> None \<Longrightarrow> user_headers hs ks h k \<noteq> None"
  unfolding user_headers_def
proof (induction ks arbitrary: h)
  case (Cons u ks)
  let ?h = "case hs u of None \<Rightarrow> h | Some v \<Rightarrow> set_header u v h"
  have "?h k \<noteq> None"
    using Cons.prems by (auto simp: set_header_def split: option.split)
  then show ?case using Cons.IH [of ?h] by simp
qed simp

lemma user_headers_last:
  assumes "hs u = Some v" "\<And>u'. hs u' \<noteq> None \<Longrightarrow> CanonicalKey u' = CanonicalKey u \<Longrightarrow> u' = u"
  shows "u \<in> set ks \<or> h (CanonicalKey u) = Some v \<Longrightarrow> user_headers hs ks h (CanonicalKey u) = Some v"
  unfolding user_headers_def
proof (induction ks arbitrary: h)
  case (Cons x ks)
  let ?h = "case hs x of None \<Rightarrow> h | Some w \<Rightarrow> set_header x w h"
  have "u \<in> set ks \<or> ?h (CanonicalKey u) = Some v"
  proof (cases "hs x")
    case None
    with Cons.prems assms(1) show ?thesis by auto
  next
    case (Some w)
    show ?thesis
    proof (cases "CanonicalKey x = CanonicalKey u")
      case True
      with Some assms(2) [of x] have "x = u" by simp
      with Some assms(1) show ?thesis by (simp add: set_header_def)
    next
      case False
      with Some Cons.prems show ?thesis by (auto simp: set_header_def)
    qed
  qed
  then show ?case using Cons.IH [of ?h] by simp
qed simp

lemma canonical_automatic:
  "CanonicalKey ''X-Job-Id'' = ''X-Job-Id''" "CanonicalKey ''Idempotency-Key'' = ''Idempotency-Key''"
  "CanonicalKey ''Content-Type'' = ''Content-Type''"
  by code_simp+

text \<open>The headers before the automatic ones are set.\<close>

lemma request_headers_eq:
  assumes "build_request lib ks job = Inr req"
  shows "rq_headers req = (user_headers (case Headers job of None \<Rightarrow> Map.empty | Some hs \<Rightarrow> hs) ks
      (if Body job = None then Map.empty else [''Content-Type'' \<mapsto> ''application/json'']))
      (''X-Job-Id'' \<mapsto> ID job, ''Idempotency-Key'' \<mapsto> ID job)"
  using assms
  by (cases "Body job") (auto simp: build_request_def Let_def sbind_eq_Inr_iff set_header_def canonical_automatic)

lemma request_headers_source:
  assumes "build_request lib ks job = Inr req" "rq_headers req k = Some v"
  shows "k \<in> {''X-Job-Id'', ''Idempotency-Key''}
    \<or> k = ''Content-Type'' \<and> v = ''application/json'' \<and> Body job \<noteq> None
    \<or> (\<exists>hs u. Headers job = Some hs \<and> hs u = Some v \<and> CanonicalKey u = k)"
  using assms(2) unfolding request_headers_eq [OF assms(1)]
  by (fastforce dest: user_headers_source split: option.splits if_splits)

lemma request_content_type:
  assumes "build_request lib ks job = Inr req" "Body job \<noteq> None"
  shows "rq_headers req ''Content-Type'' \<noteq> None"
  using user_headers_keep [of "[''Content-Type'' \<mapsto> ''application/json'']" "''Content-Type''"]
  unfolding request_headers_eq [OF assms(1)] if_not_P [OF assms(2)] by simp

text \<open>Of the three headers that the README calls automatic the content type can be overridden.\<close>

lemma user_content_type_wins:
  assumes "build_request lib ks job = Inr req"
  shows "\<forall>hs u w. Headers job = Some hs \<and> hs u = Some w \<and> u \<in> set ks \<and> CanonicalKey u = ''Content-Type''
         \<and> (\<forall>u'. hs u' \<noteq> None \<and> CanonicalKey u' = ''Content-Type'' \<longrightarrow> u' = u)
         \<longrightarrow> rq_headers req ''Content-Type'' = Some w"
proof (intro allI impI, elim conjE)
  fix hs u w
  assume h: "Headers job = Some hs" "hs u = Some w" "u \<in> set ks" "CanonicalKey u = ''Content-Type''"
    and "\<forall>u'. hs u' \<noteq> None \<and> CanonicalKey u' = ''Content-Type'' \<longrightarrow> u' = u"
  then have "\<And>u'. hs u' \<noteq> None \<Longrightarrow> CanonicalKey u' = CanonicalKey u \<Longrightarrow> u' = u" by metis
  note user_headers_last [of hs u w, OF h(2) this]
  then show "rq_headers req ''Content-Type'' = Some w"
    using h by (simp add: request_headers_eq [OF assms])
qed

text \<open>C13 The request carries the job's id in both automatic headers, whatever headers the user chose and
  in whatever order Go visits them, goes to the job's URL, and has a body exactly when the job
  has one; with a body it has a content type, which is \<open>application/json\<close> or one that the user
  set, and one that the user sets wins; every other header is one of the user's, with the user's
  value.\<close>

theorem request_identity:
  assumes "build_request lib ks job = Inr req"
  shows "rq_headers req ''X-Job-Id'' = Some (ID job) \<and> rq_headers req ''Idempotency-Key'' = Some (ID job)
    \<and> rq_url req = URL job \<and> (rq_body req = None) = (Body job = None)
    \<and> (Body job \<noteq> None \<longrightarrow> rq_headers req ''Content-Type'' \<noteq> None)
    \<and> (\<forall>hs u w. Headers job = Some hs \<and> hs u = Some w \<and> u \<in> set ks \<and> CanonicalKey u = ''Content-Type''
         \<and> (\<forall>u'. hs u' \<noteq> None \<and> CanonicalKey u' = ''Content-Type'' \<longrightarrow> u' = u)
         \<longrightarrow> rq_headers req ''Content-Type'' = Some w)
    \<and> (rq_headers req k = Some v \<longrightarrow> k \<in> {''X-Job-Id'', ''Idempotency-Key''}
         \<or> k = ''Content-Type'' \<and> v = ''application/json'' \<and> Body job \<noteq> None
         \<or> (\<exists>hs u. Headers job = Some hs \<and> hs u = Some v \<and> CanonicalKey u = k))"
  by (intro conjI impI build_request_Inr [OF assms] request_headers_source [OF assms]
      request_content_type [OF assms] user_content_type_wins [OF assms])

theorem request_identity_witness:
  "\<exists>req. build_request plain_lib [''x-job-id''] (sample_job\<lparr>Headers := Some [''x-job-id'' \<mapsto> ''evil'']\<rparr>) = Inr req
     \<and> rq_headers req ''X-Job-Id'' = Some ''j1''"
proof -
  obtain req where r: "build_request plain_lib [''x-job-id'']
      (sample_job\<lparr>Headers := Some [''x-job-id'' \<mapsto> ''evil'']\<rparr>) = Inr req"
    by (simp add: build_request_def sample_request_check Let_def)
  from request_identity [OF r] r show ?thesis by simp
qed

text \<open>C28 The deadline of the request is the job's timeout as long as that timeout in nanoseconds fits 64
  bits, that is up to 9223372036854 ms, and it wraps around beyond: with one millisecond more, which
  validation accepts, the duration is negative and the deadline has passed before the call.\<close>

theorem timeout_duration_bounds:
  assumes "build_request lib ks job = Inr req" "0 < sint (TimeoutMs job)"
  shows "(sint (rq_timeout_ns req) = sint (TimeoutMs job) * 1000000) = (sint (TimeoutMs job) \<le> 9223372036854)
    \<and> (TimeoutMs job = 9223372036855 \<longrightarrow> sint (rq_timeout_ns req) < 0)"
proof -
  have t: "rq_timeout_ns req = word_of_int (sint (TimeoutMs job) * 1000000)"
    using build_request_Inr(4) [OF assms(1)] by simp
  have "sint (word_of_int (sint (TimeoutMs job) * 1000000) :: i64) = sint (TimeoutMs job) * 1000000
      \<longleftrightarrow> sint (TimeoutMs job) \<le> 9223372036854"
  proof
    assume "sint (word_of_int (sint (TimeoutMs job) * 1000000) :: i64) = sint (TimeoutMs job) * 1000000"
    then have "sint (TimeoutMs job) * 1000000 < 2 ^ 63" using sint_i64_range(2) by metis
    then show "sint (TimeoutMs job) \<le> 9223372036854" by simp
  next
    assume "sint (TimeoutMs job) \<le> 9223372036854"
    with assms(2) show "sint (word_of_int (sint (TimeoutMs job) * 1000000) :: i64) = sint (TimeoutMs job) * 1000000"
      by (intro sint_word_of_int_i64) simp_all
  qed
  moreover have "sint (rq_timeout_ns req) < 0" if "TimeoutMs job = 9223372036855"
    using build_request_Inr(4) [OF assms(1)] that by simp
  ultimately show ?thesis by (simp add: t)
qed

theorem timeout_duration_bounds_witness:
  "\<exists>req. build_request plain_lib [] sample_job = Inr req \<and> sint (rq_timeout_ns req) = 5000000000"
proof -
  obtain req where r: "build_request plain_lib [] sample_job = Inr req"
    by (simp add: build_request_def sample_request_check Let_def)
  from timeout_duration_bounds [OF r] r show ?thesis by simp
qed

subsection \<open>Two edges of the arithmetic and of the classification\<close>

text \<open>C29 The next run of a recurring job is exactly one interval after the last due time only while the
  sum fits 64 bits; beyond, it wraps around into the past, by 2^64 ms, and the job is due at
  once. Validation puts no upper bound on the interval.\<close>

theorem next_due_wraps:
  assumes "handleExecutionSuccess st inp job s = (Rescheduled d, s')"
    and "0 \<le> sint (DueAtMs job)" "0 < sint (IntervalMs job)"
  shows "sint d = sint (DueAtMs job) + sint (IntervalMs job)
      - (if sint (DueAtMs job) + sint (IntervalMs job) < 2 ^ 63 then 0 else 2 ^ 64)
    \<and> (sint d < 0 \<longleftrightarrow> 2 ^ 63 \<le> sint (DueAtMs job) + sint (IntervalMs job))"
proof -
  have d: "d = DueAtMs job + IntervalMs job"
    using assms(1) by (auto simp: handleExecutionSuccess_def Let_def split: if_splits prod.splits option.splits)
  have r: "sint (DueAtMs job) < 2 ^ 63" "sint (IntervalMs job) < 2 ^ 63"
    using sint_i64_range by blast+
  define y where "y = sint (DueAtMs job) + sint (IntervalMs job) - 2 ^ 63"
  then have y': "sint (DueAtMs job) + sint (IntervalMs job) + 2 ^ 63 = y + 2 ^ 64" by simp
  have "sint d = (sint (DueAtMs job) + sint (IntervalMs job) + 2 ^ 63) mod 2 ^ 64 - 2 ^ 63"
    by (simp add: d sint_word_ariths signed_take_bit_eq_take_bit_shift take_bit_eq_mod)
  then have y: "sint d = (y + 2 ^ 64) mod 2 ^ 64 - 2 ^ 63" unfolding y' .
  show ?thesis
  proof (cases "y < 0")
    case True
    then have "(y + 2 ^ 64) mod 2 ^ 64 = y + 2 ^ 64"
      using r assms(2,3) by (intro mod_pos_pos_trivial) (simp_all add: y_def)
    with y True assms(2,3) show ?thesis by (simp add: y_def)
  next
    case False
    have "y < 2 ^ 64" using r by (simp add: y_def)
    with False have "(y + 2 ^ 64) mod 2 ^ 64 = y" by simp
    with y False r show ?thesis by (simp add: y_def)
  qed
qed

definition far_job :: Job where
  "far_job = sample_job\<lparr>IntervalMs := 9223372036854775807\<rparr>"

theorem next_due_wraps_witness:
  "\<exists>d s'. handleExecutionSuccess (redis_Store plain_lib ref_store) sample_input far_job (ref_created sample_job)
      = (Rescheduled d, s') \<and> sint d < 0"
proof -
  have far: "DueAtMs far_job = 1000" "IntervalMs far_job = 9223372036854775807" "Type far_job = JobTypeRecurring"
    by (simp_all add: far_job_def)
  have "storable plain_lib (success_job sample_input far_job)"
    using sample_job_storable by (simp add: storable_def far_job_def)
  from ref_reschedule_ok [OF this ref_created(2) [OF sample_job_storable], of Rescheduled]
  obtain d s' where run: "handleExecutionSuccess (redis_Store plain_lib ref_store) sample_input far_job
      (ref_created sample_job) = (Rescheduled d, s')"
    by (auto simp: success_recurring_eq far)
  from next_due_wraps [OF run] run show ?thesis by (simp add: far)
qed

text \<open>C31 The executor retries, with backoff, on exactly the statuses of \<open>IsRetryableHTTPStatus\<close> (which it never
  calls) and, against its comment and the documents, on every status below 200, from 300 to 399
  and from 600 on, none of which \<open>IsRetryableHTTPStatus\<close> accepts. A 2xx is a success, and what
  is left, the 4xx other than 429, fails the job for good.\<close>

theorem retries_beyond_documented:
  "finishJob lib st inp job (Inr c) s =
     (if IsRetryableHTTPStatus c \<or> sint c < 200 \<or> 300 \<le> sint c \<and> sint c < 400 \<or> 600 \<le> sint c
      then handleExecutionFailure lib st inp job (''HTTP '' @ FormatInt c) c s
      else if 200 \<le> sint c \<and> sint c < 300 then handleExecutionSuccess st inp job s
      else handleNonRetryableFailure st inp job (''HTTP '' @ FormatInt c) c s)
   \<and> \<not> (IsRetryableHTTPStatus c \<and> (sint c < 200 \<or> 300 \<le> sint c \<and> sint c < 400 \<or> 600 \<le> sint c))
   \<and> (retryable (Inr c) \<longleftrightarrow> IsRetryableHTTPStatus c \<or> sint c < 200 \<or> 300 \<le> sint c \<and> sint c < 400 \<or> 600 \<le> sint c)"
  by (auto simp: IsRetryableHTTPStatus_def finishJob_cases)

end
