(* ===== verification/Scheduler.thy ===== *)
theory Scheduler
  imports Execution
begin

text \<open>
  \<open>internal/scheduler/scheduler.go\<close>: one poll, which claims due jobs by taking them off the schedule
  and hands each claimed job to the dispatcher, and the loop around it. The dispatcher works on
  a state of its own, the executor's queue; the branch that each \<open>select\<close> of the loop takes is an
  event. A poll over a reliable Redis and one over a faulty Redis are both described.
\<close>

subsection \<open>Poll and loop\<close>

fun dispatch_all ::
    "'s Store \<Rightarrow> (string \<Rightarrow> 'q \<Rightarrow> 'q) \<Rightarrow> string list \<Rightarrow> 's \<Rightarrow> 'q \<Rightarrow> 's \<times> 'q" where
  "dispatch_all st dispatcher [] s q = (s, q)"
| "dispatch_all st dispatcher (jobID # jobIDs) s q =
     (case RemoveFromSchedule st jobID s of
        (Some e, s1) \<Rightarrow> dispatch_all st dispatcher jobIDs s1 q
      | (None, s1) \<Rightarrow> dispatch_all st dispatcher jobIDs s1 (dispatcher jobID q))"

definition poll ::
    "'s Store \<Rightarrow> Config \<Rightarrow> (string \<Rightarrow> 'q \<Rightarrow> 'q) \<Rightarrow> go_time \<Rightarrow> 's \<Rightarrow> 'q \<Rightarrow> 's \<times> 'q" where
  "poll st cfg dispatcher clock s q =
     (let nowMs = NowMs clock
      in case GetDueJobs st nowMs (Batch cfg) s of
           (Inl e, s1) \<Rightarrow> (s1, q)
         | (Inr jobIDs, s1) \<Rightarrow>
             if jobIDs = [] then (s1, q) else dispatch_all st dispatcher jobIDs s1 q)"

datatype sched_event = CtxDone | StopSignal | Tick go_time

datatype sched_exit = StillRunning | ContextCancelled | StopSignalled | TickerPanic

fun scheduler_loop ::
    "'s Store \<Rightarrow> Config \<Rightarrow> (string \<Rightarrow> 'q \<Rightarrow> 'q) \<Rightarrow> sched_event list \<Rightarrow> 's \<Rightarrow> 'q \<Rightarrow> sched_exit \<times> 's \<times> 'q" where
  "scheduler_loop st cfg dispatcher [] s q = (StillRunning, s, q)"
| "scheduler_loop st cfg dispatcher (CtxDone # evs) s q = (ContextCancelled, s, q)"
| "scheduler_loop st cfg dispatcher (StopSignal # evs) s q = (StopSignalled, s, q)"
| "scheduler_loop st cfg dispatcher (Tick clock # evs) s q =
     (let (s1, q1) = poll st cfg dispatcher clock s q in scheduler_loop st cfg dispatcher evs s1 q1)"

text \<open>\<open>time.NewTicker\<close> panics on a period that is not positive.\<close>

definition scheduler_Start ::
    "'s Store \<Rightarrow> Config \<Rightarrow> (string \<Rightarrow> 'q \<Rightarrow> 'q) \<Rightarrow> sched_event list \<Rightarrow> 's \<Rightarrow> 'q \<Rightarrow> sched_exit \<times> 's \<times> 'q" where
  "scheduler_Start st cfg dispatcher evs s q =
     (if sint (PollMs cfg * 1000000) \<le> 0 then (TickerPanic, s, q)
      else scheduler_loop st cfg dispatcher evs s q)"

subsection \<open>What a poll claims, over any store\<close>

lemma fold_snoc: "fold (\<lambda>i q. q @ [i]) ids q = q @ ids"
  by (induction ids arbitrary: q) simp_all

context job_store
begin

lemma dispatch_frame:
  "inv s \<Longrightarrow> dispatch_all st dispatcher ids s q = (s', q') \<Longrightarrow>
     inv s' \<and> look s' = look s \<and> (\<forall>k. due s' k = due s k \<or> k \<in> set ids \<and> due s' k = None)"
proof (induction ids arbitrary: s q)
  case (Cons i ids)
  obtain e s1 where r: "RemoveFromSchedule st i s = (e, s1)" by (rule prod.exhaust)
  note f = remove_frame [OF Cons.prems(1) r]
  have d: "due s1 i = due s i \<or> due s1 i = None"
    using remove_ok [OF Cons.prems(1), of i s1] remove_fail [OF Cons.prems(1), of i _ s1] r by (cases e) auto
  obtain q1 where "dispatch_all st dispatcher ids s1 q1 = (s', q')"
    using Cons.prems(2) by (auto simp: r split: option.splits)
  with Cons.IH [OF _ this] f d show ?case by (metis list.set_intros)
qed simp

lemma dispatch_claims:
  "inv s \<Longrightarrow> distinct ids \<Longrightarrow> dispatch_all st dispatcher ids s q = (s', q') \<Longrightarrow>
     \<exists>P. q' = fold dispatcher (filter P ids) q \<and> (\<forall>i\<in>set ids. P i \<longrightarrow> due s' i = None)"
proof (induction ids arbitrary: s q)
  case (Cons i ids)
  obtain e s1 where r: "RemoveFromSchedule st i s = (e, s1)" by (rule prod.exhaust)
  have inv: "inv s1" using remove_frame [OF Cons.prems(1) r] by simp
  have ids: "distinct ids" "i \<notin> set ids" using Cons.prems(2) by simp_all
  show ?case
  proof (cases e)
    case (Some er)
    with Cons.prems(3) have "dispatch_all st dispatcher ids s1 q = (s', q')" by (simp add: r)
    from Cons.IH [OF inv ids(1) this] obtain P where
      "q' = fold dispatcher (filter P ids) q" "\<forall>i\<in>set ids. P i \<longrightarrow> due s' i = None" by blast
    moreover have "filter P ids = filter (\<lambda>k. P k \<and> k \<noteq> i) ids"
      using ids(2) by (intro filter_cong) auto
    ultimately show ?thesis by (intro exI [of _ "\<lambda>k. P k \<and> k \<noteq> i"]) simp
  next
    case None
    with Cons.prems(3) have rest: "dispatch_all st dispatcher ids s1 (dispatcher i q) = (s', q')"
      by (simp add: r)
    from Cons.IH [OF inv ids(1) this] obtain P where P:
      "q' = fold dispatcher (filter P ids) (dispatcher i q)" "\<forall>i\<in>set ids. P i \<longrightarrow> due s' i = None" by blast
    have "due s' i = None"
      using dispatch_frame [OF inv rest] remove_ok [OF Cons.prems(1), of i s1] r None ids(2) by metis
    moreover have "filter P ids = filter (\<lambda>k. P k \<or> k = i) ids"
      using ids(2) by (intro filter_cong) auto
    ultimately show ?thesis using P by (intro exI [of _ "\<lambda>k. P k \<or> k = i"]) auto
  qed
qed simp

lemma poll_effect:
  assumes "inv s" "poll st cfg dispatcher clock s q = (s', q')" "0 < sint (Batch cfg)"
  shows "inv s' \<and> look s' = look s
    \<and> (\<exists>ids. q' = fold dispatcher ids q \<and> distinct ids \<and> length ids \<le> nat (sint (Batch cfg))
        \<and> sorted (map (\<lambda>i. the (due s i)) ids)
        \<and> (\<forall>i\<in>set ids. due s' i = None \<and> (\<exists>d. due s i = Some d \<and> d \<le> score (NowMs clock))))
    \<and> (\<forall>k. due s' k = due s k
          \<or> due s' k = None \<and> (\<exists>d. due s k = Some d \<and> d \<le> score (NowMs clock)))"
proof -
  obtain rd s1 where g: "GetDueJobs st (NowMs clock) (Batch cfg) s = (rd, s1)" by (rule prod.exhaust)
  note f = due_frame [OF assms(1) g]
  show ?thesis
  proof (cases rd)
    case (Inl e)
    with assms(2) f show ?thesis by (auto simp: poll_def g intro!: exI [of _ "[]"])
  next
    case (Inr ids)
    note sound = due_sound [OF assms(1) g [unfolded Inr]]
    have run: "dispatch_all st dispatcher ids s1 q = (s', q')"
      using assms(2) by (cases "ids = []") (simp_all add: poll_def g Inr)
    have inv1: "inv s1" using f by simp
    obtain P where P: "q' = fold dispatcher (filter P ids) q" "\<forall>i\<in>set ids. P i \<longrightarrow> due s' i = None"
      using dispatch_claims [OF inv1 _ run] sound by blast
    have len: "length (filter P ids) \<le> nat (sint (Batch cfg))"
      using due_limit [OF assms(1) g [unfolded Inr] assms(3)] length_filter_le [of P ids] by linarith
    have "sorted (map (\<lambda>i. the (due s i)) (filter P ids))"
      using due_order [OF assms(1) g [unfolded Inr]] by (rule sorted_filter)
    with P len sound dispatch_frame [OF inv1 run] f show ?thesis
      by (intro conjI exI [of _ "filter P ids"]) auto
  qed
qed

text \<open>Over several polls: what has been claimed stays off the schedule, so nothing is claimed twice.\<close>

lemma loop_claims:
  "inv s \<Longrightarrow> scheduler_loop st cfg (\<lambda>i q. q @ [i]) evs s q = (ex, s', q') \<Longrightarrow> 0 < sint (Batch cfg) \<Longrightarrow>
     distinct q \<Longrightarrow> (\<forall>i\<in>set q. due s i = None) \<Longrightarrow>
     inv s' \<and> look s' = look s \<and> (\<exists>ids. q' = q @ ids \<and> distinct q' \<and> (\<forall>i\<in>set q'. due s' i = None)
       \<and> (\<forall>i\<in>set ids. due s i \<noteq> None))
     \<and> (\<forall>k. due s' k = due s k \<or> due s' k = None)"
proof (induction evs arbitrary: s q)
  case (Cons ev evs)
  show ?case
  proof (cases ev)
    case (Tick clock)
    obtain s1 q1 where p: "poll st cfg (\<lambda>i q. q @ [i]) clock s q = (s1, q1)" by (rule prod.exhaust)
    note e = poll_effect [OF Cons.prems(1) p Cons.prems(3)]
    from e obtain ids where ids: "q1 = q @ ids" "distinct ids" "\<forall>i\<in>set ids. due s1 i = None \<and> due s i \<noteq> None"
      unfolding fold_snoc by (metis option.distinct(1))
    have sub: "due s1 k = due s k \<or> due s1 k = None" for k using e by metis
    have "set q \<inter> set ids = {}" using ids(3) Cons.prems(5) by auto
    then have q1: "distinct q1" using ids(1,2) Cons.prems(4) by simp
    have q1n: "\<forall>i\<in>set q1. due s1 i = None" using ids(1,3) Cons.prems(5) sub by (metis Un_iff set_append)
    have inv1: "inv s1" using e by simp
    have rest: "scheduler_loop st cfg (\<lambda>i q. q @ [i]) evs s1 q1 = (ex, s', q')"
      using Cons.prems(2) by (simp add: Tick p)
    from Cons.IH [OF inv1 rest Cons.prems(3) q1 q1n] obtain ids2 where
      ih: "q' = q1 @ ids2" "distinct q'" "\<forall>i\<in>set q'. due s' i = None" "\<forall>i\<in>set ids2. due s1 i \<noteq> None"
        "inv s'" "look s' = look s1" "\<forall>k. due s' k = due s1 k \<or> due s' k = None" by blast
    have "\<forall>i\<in>set (ids @ ids2). due s i \<noteq> None" using ids(3) ih(4) sub by (metis Un_iff set_append)
    moreover have "\<forall>k. due s' k = due s k \<or> due s' k = None" using ih(7) sub by metis
    ultimately show ?thesis using ih ids(1) e by (intro conjI exI [of _ "ids @ ids2"]) simp_all
  qed (use Cons.prems in simp_all)
qed simp

end

subsection \<open>Properties of the scheduler\<close>

lemmas poll_effect = job_store.poll_effect [OF redis_contract]
lemmas loop_claims = job_store.loop_claims [OF redis_contract]

text \<open>C7 A poll hands to the dispatcher, in the order of their due times, distinct jobs that were scheduled
  no later than now, at most a batch of them, each of which it has taken off the schedule first. It
  touches no other schedule entry but those of due jobs, and no job; a job whose removal is reported
  as failed is not dispatched, although its entry may be gone.\<close>

theorem poll_claims_due_jobs:
  assumes "redis_service (client rs) db" "db_wf (db s)" "0 < sint (Batch cfg)"
    and "poll (redis_Store lib rs) cfg dispatcher clock s q = (s', q')"
  shows "redis_look lib rs (db s') = redis_look lib rs (db s)
    \<and> (\<exists>ids. q' = fold dispatcher ids q \<and> distinct ids \<and> length ids \<le> nat (sint (Batch cfg))
        \<and> sorted (map (\<lambda>i. the (redis_due rs (db s) i)) ids)
        \<and> (\<forall>i\<in>set ids. redis_due rs (db s') i = None
             \<and> (\<exists>d. redis_due rs (db s) i = Some d \<and> d \<le> score (NowMs clock))))
    \<and> (\<forall>k. redis_due rs (db s') k = redis_due rs (db s) k
          \<or> redis_due rs (db s') k = None
             \<and> (\<exists>d. redis_due rs (db s) k = Some d \<and> d \<le> score (NowMs clock)))"
  using poll_effect [OF assms(1,2,4,3)] by blast

definition half_second :: go_time where
  "half_second = \<lparr>t_unix = 0, t_nsec = 500000000\<rparr>"

lemma ref_remove_ok:
  "faults s = [] \<Longrightarrow> RedisStore_RemoveFromSchedule ref_store i s
     = (None, s\<lparr>rdb := snd (redis_run [ZREM (schedulesKey ref_store) i] (rdb s))\<rparr>)"
  by (simp add: RedisStore_RemoveFromSchedule_def ref_run_ok)

lemma ref_two_poll:
  "\<exists>s'. poll (redis_Store plain_lib ref_store) (DefaultConfig\<lparr>Batch := 10\<rparr>) (\<lambda>i q. q @ [i]) half_second ref_two []
     = (s', [''b'', ''a''])"
proof -
  have "NowMs half_second = 500" by (simp add: NowMs_def UnixMilli_def half_second_def)
  moreover have "faults ref_two = []" by (simp add: ref_two_def)
  ultimately show ?thesis
    using ref_two_due by (simp add: poll_def store_ops ref_remove_ok)
qed

theorem poll_claims_due_jobs_witness:
  "\<exists>s'. poll (redis_Store plain_lib ref_store) (DefaultConfig\<lparr>Batch := 10\<rparr>) (\<lambda>i q. q @ [i]) half_second ref_two []
     = (s', [''b'', ''a'']) \<and> redis_due ref_store (rdb s') ''b'' = None"
proof -
  obtain s' where run: "poll (redis_Store plain_lib ref_store) (DefaultConfig\<lparr>Batch := 10\<rparr>)
      (\<lambda>i q. q @ [i]) half_second ref_two [] = (s', [''b'', ''a''])"
    using ref_two_poll by blast
  from poll_claims_due_jobs [OF ref_service ref_two_wf _ run]
  obtain ids where "[''b'', ''a''] = fold (\<lambda>i q. q @ [i]) ids []"
    "\<forall>i\<in>set ids. redis_due ref_store (rdb s') i = None" by auto
  with run show ?thesis by (auto simp: fold_snoc)
qed

text \<open>C27 Over a whole run of the scheduler, with whatever polls and wherever it stops, no job is dispatched
  twice unless something puts it back on the schedule: what it hands out, from an empty queue, is
  without repetition, was scheduled at the start, and is off the schedule at the end.\<close>

theorem scheduler_dispatches_once:
  assumes "redis_service (client rs) db" "db_wf (db s)" "0 < sint (Batch cfg)"
    and "scheduler_Start (redis_Store lib rs) cfg (\<lambda>i q. q @ [i]) evs s [] = (ex, s', q')"
  shows "distinct q' \<and> redis_look lib rs (db s') = redis_look lib rs (db s)
    \<and> (\<forall>i\<in>set q'. redis_due rs (db s) i \<noteq> None \<and> redis_due rs (db s') i = None)"
proof (cases "sint (PollMs cfg * 1000000) \<le> 0")
  case True
  with assms(4) show ?thesis by (auto simp: scheduler_Start_def)
next
  case False
  with assms(4) have "scheduler_loop (redis_Store lib rs) cfg (\<lambda>i q. q @ [i]) evs s [] = (ex, s', q')"
    by (simp add: scheduler_Start_def)
  from loop_claims [OF assms(1,2) this assms(3)] show ?thesis by auto
qed

lemma default_ticker: "\<not> sint (PollMs (DefaultConfig\<lparr>Batch := n\<rparr>) * 1000000) \<le> 0"
  by (simp add: DefaultConfig_def)

theorem scheduler_dispatches_once_witness:
  "\<exists>ex s' q'. scheduler_Start (redis_Store plain_lib ref_store) (DefaultConfig\<lparr>Batch := 10\<rparr>) (\<lambda>i q. q @ [i])
      [Tick half_second, StopSignal] ref_two [] = (ex, s', q') \<and> ex = StopSignalled \<and> q' = [''b'', ''a'']
    \<and> redis_due ref_store (rdb s') ''a'' = None"
proof -
  obtain s' where "poll (redis_Store plain_lib ref_store) (DefaultConfig\<lparr>Batch := 10\<rparr>)
      (\<lambda>i q. q @ [i]) half_second ref_two [] = (s', [''b'', ''a''])"
    using ref_two_poll by blast
  then have run: "scheduler_Start (redis_Store plain_lib ref_store) (DefaultConfig\<lparr>Batch := 10\<rparr>) (\<lambda>i q. q @ [i])
      [Tick half_second, StopSignal] ref_two [] = (StopSignalled, s', [''b'', ''a''])"
    using default_ticker by (simp add: scheduler_Start_def)
  from scheduler_dispatches_once [OF ref_service ref_two_wf _ run] run show ?thesis by simp
qed

lemma loop_no_panic: "fst (scheduler_loop st cfg dispatcher evs s q) \<noteq> TickerPanic"
  by (induction st cfg dispatcher evs s q rule: scheduler_loop.induct) (auto split: prod.split)

text \<open>C30 The ticker of an accepted configuration has the configured period, and does not panic, exactly up
  to 9223372036854 ms; the period of 9223372036855 ms, which validation accepts, is negative in
  nanoseconds and the scheduler goroutine panics when it starts.\<close>

theorem ticker_period_bounds:
  assumes "config_ok cfg"
  shows "(sint (PollMs cfg) \<le> 9223372036854 \<longrightarrow> sint (PollMs cfg * 1000000) = sint (PollMs cfg) * 1000000
      \<and> fst (scheduler_Start st cfg dispatcher evs s q) \<noteq> TickerPanic)
    \<and> (PollMs cfg = 9223372036855 \<longrightarrow> fst (scheduler_Start st cfg dispatcher evs s q) = TickerPanic)"
proof (intro conjI impI)
  have p: "0 < sint (PollMs cfg)" using assms by (simp add: config_ok_def)
  assume u: "sint (PollMs cfg) \<le> 9223372036854"
  have "PollMs cfg * 1000000 = word_of_int (sint (PollMs cfg) * 1000000)" by simp
  moreover have "sint (word_of_int (sint (PollMs cfg) * 1000000) :: i64) = sint (PollMs cfg) * 1000000"
    using p u by (intro sint_word_of_int_i64) simp_all
  ultimately show e: "sint (PollMs cfg * 1000000) = sint (PollMs cfg) * 1000000" by metis
  then show "fst (scheduler_Start st cfg dispatcher evs s q) \<noteq> TickerPanic"
    using p loop_no_panic by (simp add: scheduler_Start_def)
qed (simp add: scheduler_Start_def)

theorem ticker_period_bounds_witness:
  "config_ok (DefaultConfig\<lparr>RedisURL := ''redis://h:1'', AuthToken := ''t''\<rparr>)
   \<and> sint (PollMs (DefaultConfig\<lparr>RedisURL := ''redis://h:1'', AuthToken := ''t''\<rparr>) * 1000000) = 200000000"
proof -
  have "PollMs (DefaultConfig\<lparr>RedisURL := ''redis://h:1'', AuthToken := ''t''\<rparr>) = 200"
    by (simp add: DefaultConfig_def)
  with default_config_ok ticker_period_bounds [OF default_config_ok] show ?thesis by simp
qed

end
