(* ===== verification/ReliableStore.thy ===== *)
theory ReliableStore
  imports Scheduler
begin

text \<open>
  The same operations over a store whose calls do not fail: the contract \<open>reliable_store\<close> extends
  \<open>job_store\<close>, and the Redis store meets it over any Redis service that always answers. Under it the
  scheduler claims every due job and no execution loses its job.
\<close>

locale reliable_store = job_store +
  assumes get_works: "inv s \<Longrightarrow> GetJob st i s = (r, s') \<Longrightarrow> r = look s i"
    and create_works: "inv s \<Longrightarrow> storable j \<Longrightarrow> CreateJob st j s = (e, s') \<Longrightarrow> e = None"
    and update_works: "inv s \<Longrightarrow> storable j \<Longrightarrow> UpdateJob st j s = (e, s') \<Longrightarrow> e = None"
    and delete_works: "inv s \<Longrightarrow> DeleteJob st i s = (e, s') \<Longrightarrow> e = None"
    and due_works: "inv s \<Longrightarrow> GetDueJobs st now n s = (rd, s') \<Longrightarrow> \<exists>ids. rd = Inr ids"
    and remove_works: "inv s \<Longrightarrow> RemoveFromSchedule st i s = (e, s') \<Longrightarrow> e = None"
    and add_works: "inv s \<Longrightarrow> AddToSchedule st i ms s = (e, s') \<Longrightarrow> e = None"
begin

lemma dispatch_all_works:
  "inv s \<Longrightarrow> distinct ids \<Longrightarrow> dispatch_all st dispatcher ids s q = (s', q') \<Longrightarrow>
     q' = fold dispatcher ids q \<and> (\<forall>i\<in>set ids. due s' i = None)"
proof (induction ids arbitrary: s q)
  case (Cons i ids)
  obtain e s1 where r: "RemoveFromSchedule st i s = (e, s1)" by (rule prod.exhaust)
  have e: "e = None" using remove_works [OF Cons.prems(1) r] .
  have inv: "inv s1" using remove_frame [OF Cons.prems(1) r] by simp
  have rest: "dispatch_all st dispatcher ids s1 (dispatcher i q) = (s', q')"
    using Cons.prems(3) by (simp add: r e)
  have "due s' i = None"
    using dispatch_frame [OF inv rest] remove_ok [OF Cons.prems(1), of i s1] r e by metis
  with Cons.IH [OF inv _ rest] Cons.prems(2) show ?case by simp
qed simp

text \<open>A poll with room in its batch claims every due job.\<close>

lemma poll_claims_all:
  assumes "inv s" "poll st cfg dispatcher clock s q = (s', q')" "0 < sint (Batch cfg)"
    and "finite {i. \<exists>d. due s i = Some d \<and> d \<le> score (NowMs clock)}"
    and "card {i. \<exists>d. due s i = Some d \<and> d \<le> score (NowMs clock)} < nat (sint (Batch cfg))"
  shows "\<exists>ids. set ids = {i. \<exists>d. due s i = Some d \<and> d \<le> score (NowMs clock)} \<and> distinct ids
    \<and> q' = fold dispatcher ids q \<and> (\<forall>i\<in>set ids. due s' i = None)"
proof -
  define D where "D = {i. \<exists>d. due s i = Some d \<and> d \<le> score (NowMs clock)}"
  obtain rd s1 where g: "GetDueJobs st (NowMs clock) (Batch cfg) s = (rd, s1)" by (rule prod.exhaust)
  with due_works [OF assms(1) g] obtain ids where ids: "rd = Inr ids" by blast
  note g = g [unfolded ids] and f = due_frame [OF assms(1) g]
  have run: "dispatch_all st dispatcher ids s1 q = (s', q')"
    using assms(2) g ids by (cases "ids = []") (simp_all add: poll_def)
  have sub: "set ids \<subseteq> D" and dist: "distinct ids"
    using due_sound [OF assms(1) g] by (auto simp: D_def)
  have "length ids < nat (sint (Batch cfg))"
    using card_mono [OF assms(4) [folded D_def] sub] distinct_card [OF dist] assms(5) by (simp add: D_def)
  then have "D \<subseteq> set ids"
    using due_complete [OF assms(1) g] by (auto simp: D_def)
  with sub dispatch_all_works [OF _ dist run] f dist show ?thesis by (auto simp: D_def [symmetric])
qed

text \<open>An execution that begins with a pending job ends with its job gone, scheduled, or failed.\<close>

lemma finish_not_lost:
  assumes "inv s" "jobs_ok storable (look s)" "running storable (look s) job"
    and "finishJob lib st inp job result s = (out, s')"
  shows "look s' (ID job) = Inl ErrJobNotFound \<and> due s' (ID job) = None \<and> out = OneShotDeleted
    \<or> (\<exists>j. look s' (ID job) = Inr j \<and> same_config j job \<and>
        (Status j = JobStatusPending \<and> due s' (ID job) = Some (score (DueAtMs j))
           \<and> out \<in> {Rescheduled (DueAtMs j), RetryScheduled (DueAtMs j)}
         \<or> Status j = JobStatusFailed \<and> out \<in> {FinalFailure None, NonRetryable None}))"
proof -
  have job: "job_inv job" "sint (Attempt job) < sint (MaxAttempts job)"
    and same: "\<And>k. look s (ID job) = Inr k \<Longrightarrow> same_config job k"
    using assms(3) by (auto simp: running_def)
  show ?thesis
  proof (cases "verdict lib inp job result")
    case Delete
    then have "finishJob lib st inp job result s \<noteq> (DeleteFailed e, s')" for e
      using finishJob_verdict(1) [OF job(1) Delete, of st s] delete_works [OF assms(1)]
      by (auto split: prod.splits option.splits)
    with finish_delete [OF assms Delete] assms(4) show ?thesis by auto
  next
    case (Reschedule j)
    have j: "job_inv j" "storable j" "same_config j job" "Status j = JobStatusPending"
      using running_verdict(1) [OF assms(3) Reschedule] verdict_jobs(1) [OF job Reschedule] by auto
    obtain ok where ok: "reschedule st ok j s = (out, s')" "ok \<in> {Rescheduled, RetryScheduled}"
      using finishJob_verdict(2) [OF job(1) Reschedule, of st s] assms(4) by auto
    obtain e s1 where u: "UpdateJob st j s = (e, s1)" by (rule prod.exhaust)
    have e: "e = None" using update_works [OF assms(1) j(2) u] .
    have inv1: "inv s1" using update_frame [OF assms(1) u] by simp
    obtain e2 s2 where a: "AddToSchedule st (ID j) (DueAtMs j) s1 = (e2, s2)" by (rule prod.exhaust)
    have "out = ok (DueAtMs j)"
      using ok(1) add_works [OF inv1 a] by (simp add: reschedule_def u e a)
    with finish_reschedule [OF assms Reschedule] ok(2)
      merged_present_same [OF j(3,1) same] j(4) show ?thesis by auto
  next
    case (Stop j)
    have j: "job_inv j" "storable j" "same_config j job" "Status j = JobStatusFailed"
      using running_verdict(2) [OF assms(3) Stop] verdict_jobs(2) [OF job Stop] by auto
    have "out \<in> {FinalFailure None, NonRetryable None}"
      using finishJob_verdict(3) [OF job(1) Stop, of st s] assms(4) update_works [OF assms(1) j(2)]
      by (auto split: prod.splits)
    with finish_stop [OF assms Stop] merged_present_same [OF j(3,1) same] j(4) show ?thesis by auto
  qed
qed

lemma execute_not_lost:
  assumes "inv s" "jobs_ok storable (look s)" "look s i = Inr job"
    and "sint (Attempt job) < sint (MaxAttempts job)" "executeJob lib st inp i s = (out, s')"
  shows "look s' i = Inl ErrJobNotFound \<and> due s' i = None \<and> out = OneShotDeleted
    \<or> (\<exists>j. look s' i = Inr j \<and> same_config j job \<and>
        (Status j = JobStatusPending \<and> due s' i = Some (score (DueAtMs j))
           \<and> out \<in> {Rescheduled (DueAtMs j), RetryScheduled (DueAtMs j)}
         \<or> Status j = JobStatusFailed \<and> out \<in> {FinalFailure None, NonRetryable None}))"
proof -
  obtain r s1 where g: "GetJob st i s = (r, s1)" by (rule prod.exhaust)
  have "r = Inr job" using get_works [OF assms(1) g] assms(3) by simp
  with assms(5) have "\<exists>result. finishJob lib st inp job result s1 = (out, s')"
    by (auto simp: executeJob_def g finishJob_cases(1) [symmetric] split: sum.splits)
  then obtain result where fin: "finishJob lib st inp job result s1 = (out, s')" by blast
  have en: "ID job = i" "job_inv job" "storable job"
    using assms(2,3) unfolding jobs_ok_def by (metis entry_ok_simps(2))+
  have f: "inv s1" "look s1 = look s" using get_frame [OF assms(1) g] by simp_all
  have "running storable (look s1) job" using en assms(3,4) f(2) by (simp add: running_def)
  from finish_not_lost [OF f(1) _ this fin] assms(2) f(2) en(1) show ?thesis by simp
qed

end

subsection \<open>Redis without faults\<close>

locale reliable_redis = redis_store +
  assumes answers: "\<exists>replies. fst (client rs cs s) = Inr replies"
begin

lemma client_answers:
  "\<exists>s'. client rs cs s = (Inr (fst (redis_run cs (db s))), s') \<and> db s' = snd (redis_run cs (db s))"
proof -
  obtain replies where "fst (client rs cs s) = Inr replies" using answers by blast
  then have "client rs cs s = (Inr replies, snd (client rs cs s))" by (metis prod.collapse)
  moreover have "redis_run cs (db s) = (replies, db (snd (client rs cs s)))" using exec_ok [OF calculation] .
  ultimately show ?thesis by auto
qed

lemma run_cmds_works: "run_cmds rs what cs s = (e, s') \<Longrightarrow> e = None"
  using client_answers [of cs s] by (auto simp: run_cmds_def)

lemma get_job_works: "RedisStore_GetJob lib rs i s = (r, s') \<Longrightarrow> r = redis_look lib rs (db s) i"
  using client_answers [of "[HGETALL (jobKey rs i)]" s]
  by (auto simp: RedisStore_GetJob_def redis_look_def redis_run.simps Let_def)

lemma get_due_works: "RedisStore_GetDueJobs rs now n s = (rd, s') \<Longrightarrow> \<exists>ids. rd = Inr ids"
  using client_answers [of "[ZRANGEBYSCORE (schedulesKey rs) (FormatInt now) (sint n)]" s]
  by (auto simp: RedisStore_GetDueJobs_def redis_run.simps zrange_FormatInt)

end

sublocale reliable_redis \<subseteq> reliable_store "redis_Store lib rs" "\<lambda>s. redis_look lib rs (db s)"
  "\<lambda>s. redis_due rs (db s)" "\<lambda>s. db_wf (db s)" "storable lib"
  by unfold_locales (auto simp: redis_Store_def RedisStore_CreateJob_def RedisStore_UpdateJob_def
      RedisStore_DeleteJob_def RedisStore_RemoveFromSchedule_def RedisStore_AddToSchedule_def
      serializeJob_storable dest: get_job_works get_due_works run_cmds_works)

text \<open>A server in the same process: every call is answered.\<close>

definition calm_exec :: "redis_db redis_client" where
  "calm_exec cs d = (Inr (fst (redis_run cs d)), snd (redis_run cs d))"

definition calm_store :: "redis_db RedisStore" where
  "calm_store = \<lparr>client = calm_exec, namespace = ''tickhook''\<rparr>"

lemma calm_service: "redis_service (client calm_store) (\<lambda>d. d)"
  by unfold_locales (auto simp: calm_store_def calm_exec_def)

interpretation calm: reliable_redis calm_store "\<lambda>d. d" lib for lib
  by (intro reliable_redis.intro redis_store.intro calm_service reliable_redis_axioms.intro)
    (simp add: calm_store_def calm_exec_def)

context reliable_redis
begin

lemma finite_due: "finite {i. \<exists>d. redis_due rs (db s) i = Some d \<and> d \<le> m}"
proof (rule finite_subset)
  show "{i. \<exists>d. redis_due rs (db s) i = Some d \<and> d \<le> m}
      \<subseteq> dom (map_of (map prod.swap (zsets (db s) (schedulesKey rs))))"
    by (auto simp: redis_due_def zscore_def)
qed (rule finite_dom_map_of)

lemmas poll_all = poll_claims_all [OF _ _ _ finite_due]

lemmas execute_kept = execute_not_lost

text \<open>The contract, as a theorem about any Redis service that answers.\<close>

lemma meets_reliable_contract:
  "reliable_store (redis_Store lib rs) (\<lambda>s. redis_look lib rs (db s)) (\<lambda>s. redis_due rs (db s))
     (\<lambda>s. db_wf (db s)) (storable lib)"
  by (rule reliable_store_axioms)

end

lemma reliable_redisI:
  "redis_service (client rs) db \<Longrightarrow> (\<And>cs s. \<exists>replies. fst (client rs cs s) = Inr replies) \<Longrightarrow>
     reliable_redis rs db"
  by (intro reliable_redis.intro redis_store.intro reliable_redis_axioms.intro)

lemmas reliable_redis_contract = reliable_redis.meets_reliable_contract

text \<open>C8 While Redis answers, the poll is complete: if fewer jobs are due than a batch holds, every job
  whose time has come is taken off the schedule and handed to the dispatcher, exactly once.\<close>

theorem poll_claims_all_due:
  assumes "redis_service (client rs) db" "\<And>cs s. \<exists>replies. fst (client rs cs s) = Inr replies"
    and "db_wf (db s)" "poll (redis_Store lib rs) cfg dispatcher clock s q = (s', q')"
    and "0 < sint (Batch cfg)"
    and "card {i. \<exists>d. redis_due rs (db s) i = Some d \<and> d \<le> score (NowMs clock)} < nat (sint (Batch cfg))"
  shows "\<exists>ids. set ids = {i. \<exists>d. redis_due rs (db s) i = Some d \<and> d \<le> score (NowMs clock)}
    \<and> distinct ids \<and> q' = fold dispatcher ids q \<and> (\<forall>i\<in>set ids. redis_due rs (db s') i = None)"
  by (rule reliable_redis.poll_all [OF reliable_redisI [OF assms(1,2)] assms(3-6)])

text \<open>C3 While Redis answers, no execution loses its job: a pending job that a worker loads ends deleted
  after a success, if one-shot; or stored pending and scheduled at its stored due time; or stored
  as failed, and the log says which.\<close>

theorem execution_loses_no_job:
  assumes "redis_service (client rs) db" "\<And>cs s. \<exists>replies. fst (client rs cs s) = Inr replies"
    and "valid_store lib rs (db s)" "redis_look lib rs (db s) i = Inr job"
    and "sint (Attempt job) < sint (MaxAttempts job)"
    and "executeJob lib (redis_Store lib rs) inp i s = (out, s')"
  shows "redis_look lib rs (db s') i = Inl ErrJobNotFound \<and> redis_due rs (db s') i = None
      \<and> out = OneShotDeleted
    \<or> (\<exists>j. redis_look lib rs (db s') i = Inr j \<and> same_config j job \<and>
        (Status j = JobStatusPending \<and> redis_due rs (db s') i = Some (score (DueAtMs j))
           \<and> out \<in> {Rescheduled (DueAtMs j), RetryScheduled (DueAtMs j)}
         \<or> Status j = JobStatusFailed \<and> out \<in> {FinalFailure None, NonRetryable None}))"
  using reliable_redis.execute_kept [OF reliable_redisI [OF assms(1,2)] _ _ assms(4-6)] assms(3) by blast

subsection \<open>Runs on the calm server\<close>

lemma calm_answers: "\<exists>replies. fst (client calm_store cs s) = Inr replies"
  by (simp add: calm_store_def calm_exec_def)

lemma calm_views: "redis_look lib calm_store = redis_look lib ref_store" "redis_due calm_store = redis_due ref_store"
  by (simp_all add: fun_eq_iff redis_look_def redis_due_def jobKey_def schedulesKey_def calm_store_def ref_store_def)

theorem poll_claims_all_due_witness:
  "\<exists>s' q' ids. poll (redis_Store plain_lib calm_store) (DefaultConfig\<lparr>Batch := 10\<rparr>) (\<lambda>i q. q @ [i])
      half_second (rdb ref_two) [] = (s', q') \<and> q' = ids \<and> set ids = {''b'', ''a''}"
proof -
  obtain s' q' where run: "poll (redis_Store plain_lib calm_store) (DefaultConfig\<lparr>Batch := 10\<rparr>)
      (\<lambda>i q. q @ [i]) half_second (rdb ref_two) [] = (s', q')" by (rule prod.exhaust)
  have "{i. \<exists>d. redis_due calm_store (rdb ref_two) i = Some d \<and> d \<le> score (NowMs half_second)} = {''b'', ''a''}"
    by (auto simp: redis_due_def zscore_def schedulesKey_def calm_store_def ref_two_def NowMs_def
        UnixMilli_def half_second_def score_exact split: if_splits)
  with poll_claims_all_due [OF calm_service calm_answers ref_two_wf run] run show ?thesis
    by (auto simp: fold_snoc)
qed

theorem execution_loses_no_job_witness:
  "\<exists>out s'. executeJob plain_lib (redis_Store plain_lib calm_store) sample_input ''j1'' (rdb (ref_polled []))
      = (out, s') \<and> (redis_look plain_lib ref_store s' ''j1'' = Inl ErrJobNotFound
        \<or> (\<exists>j. redis_look plain_lib ref_store s' ''j1'' = Inr j \<and> same_config j sample_job
             \<and> (Status j = JobStatusPending \<and> redis_due ref_store s' ''j1'' \<noteq> None \<or> Status j = JobStatusFailed)))"
proof -
  obtain out s' where run: "executeJob plain_lib (redis_Store plain_lib calm_store) sample_input ''j1''
      (rdb (ref_polled [])) = (out, s')" by (rule prod.exhaust)
  have att: "sint (Attempt sample_job) < sint (MaxAttempts sample_job)" by simp
  note polled = ref_polled(1,2) [of "[]", folded calm_views]
  from execution_loses_no_job [OF calm_service calm_answers polled att run] run
  show ?thesis by (auto simp: calm_views)
qed

end
