(* ===== verification/HttpServer.thy ===== *)
theory HttpServer
  imports ReliableStore
begin

text \<open>
  What the API uses of \<open>net/http\<close> (Go 1.22): requests, responses, and the choice of a handler by
  \<open>ServeMux\<close> among the patterns that \<open>registerRoutes\<close> in \<open>internal/httpapi/server.go\<close> registers. A
  request is in origin form; its path is given as \<open>EscapedPath\<close> returns it, and \<open>r.URL.Path\<close> is
  that path unescaped.
\<close>

record http_in =
  hr_method :: string
  hr_path :: string
  hr_authorization :: string
  hr_body :: string

definition path_unescape :: "string \<Rightarrow> string" where
  "path_unescape s = (case unescape encodePath s of Inl _ \<Rightarrow> s | Inr t \<Rightarrow> t)"

definition URL_Path :: "http_in \<Rightarrow> string" where
  "URL_Path r = path_unescape (hr_path r)"

subsection \<open>Paths\<close>

fun split_slash :: "string \<Rightarrow> string list" where
  "split_slash [] = [[]]"
| "split_slash (c # cs) =
     (if c = CHR ''/'' then [] # split_slash cs
      else case split_slash cs of [] \<Rightarrow> [[c]] | seg # segs \<Rightarrow> (c # seg) # segs)"

fun clean_segs :: "string list \<Rightarrow> string list \<Rightarrow> string list" where
  "clean_segs stack [] = rev stack"
| "clean_segs stack (seg # segs) =
     (if seg = [] \<or> seg = ''.'' then clean_segs stack segs
      else if seg = ''..'' then clean_segs (drop 1 stack) segs
      else clean_segs (seg # stack) segs)"

text \<open>\<open>path.Clean\<close> of a rooted path, and \<open>cleanPath\<close> of \<open>net/http\<close>, which keeps a trailing slash.\<close>

definition Clean_rooted :: "string \<Rightarrow> string" where
  "Clean_rooted p =
     (let segs = clean_segs [] (split_slash p)
      in if segs = [] then ''/'' else concat (map (\<lambda>seg. CHR ''/'' # seg) segs))"

definition cleanPath :: "string \<Rightarrow> string" where
  "cleanPath p =
     (if p = [] then ''/''
      else
        let p = (if hd p \<noteq> CHR ''/'' then CHR ''/'' # p else p);
            np = Clean_rooted p
        in if last p = CHR ''/'' \<and> np \<noteq> ''/'' then np @ ''/'' else np)"

subsection \<open>Routes\<close>

datatype route =
    GetHealth
  | PostOneShot
  | PostRecurring
  | GetJobRoute string
  | DeleteJobRoute string

text \<open>The segments of a path, unescaped one by one; the one after a trailing slash is empty.\<close>

definition path_segments :: "string \<Rightarrow> string list" where
  "path_segments p =
     (case p of [] \<Rightarrow> [] | c # cs \<Rightarrow> if c = CHR ''/'' then map path_unescape (split_slash cs) else [])"

definition is_job_id :: "string \<Rightarrow> bool" where
  "is_job_id seg \<longleftrightarrow> seg \<noteq> [] \<and> seg \<noteq> ''/''"

definition match_method :: "string \<Rightarrow> string list \<Rightarrow> route option" where
  "match_method method segs =
     (if method = ''GET'' then
        (if segs = [''health''] then Some GetHealth
         else (case segs of
                 [a, b, c] \<Rightarrow> if a = ''v1'' \<and> b = ''jobs'' \<and> is_job_id c then Some (GetJobRoute c) else None
               | _ \<Rightarrow> None))
      else if method = ''POST'' then
        (if segs = [''v1'', ''jobs'', ''one-shot''] then Some PostOneShot
         else if segs = [''v1'', ''jobs'', ''recurring''] then Some PostRecurring
         else None)
      else if method = ''DELETE'' then
        (case segs of
           [a, b, c] \<Rightarrow> if a = ''v1'' \<and> b = ''jobs'' \<and> is_job_id c then Some (DeleteJobRoute c) else None
         | _ \<Rightarrow> None)
      else None)"

text \<open>A GET pattern serves HEAD as well.\<close>

definition match_route :: "string \<Rightarrow> string list \<Rightarrow> route option" where
  "match_route method segs =
     (case match_method method segs of
        Some rt \<Rightarrow> Some rt
      | None \<Rightarrow> if method = ''HEAD'' then match_method ''GET'' segs else None)"

definition matchingMethods :: "string list \<Rightarrow> string list" where
  "matchingMethods segs =
     filter (\<lambda>m. match_route m segs \<noteq> None) [''DELETE'', ''GET'', ''HEAD'', ''POST'']"

datatype mux_result =
    Handler route
  | Redirect string
  | MethodNotAllowedFor "string list"
  | NotFound

text \<open>\<open>findHandler\<close>; the path of a CONNECT request is not cleaned.\<close>

definition findHandler :: "http_in \<Rightarrow> mux_result" where
  "findHandler r =
     (let path = (if hr_method r = ''CONNECT'' then hr_path r else cleanPath (hr_path r));
          segs = path_segments path
      in if path \<noteq> hr_path r then Redirect path
         else case match_route (hr_method r) segs of
                Some rt \<Rightarrow> Handler rt
              | None \<Rightarrow> if matchingMethods segs \<noteq> [] then MethodNotAllowedFor (matchingMethods segs)
                        else NotFound)"

lemma match_method_job_id:
  "match_method m segs = Some (GetJobRoute i) \<Longrightarrow> i \<noteq> []"
  "match_method m segs = Some (DeleteJobRoute i) \<Longrightarrow> i \<noteq> [] \<and> m = ''DELETE''"
  by (auto simp: match_method_def is_job_id_def split: if_splits list.splits)

lemma findHandler_job_id:
  "findHandler r = Handler (GetJobRoute i) \<Longrightarrow> i \<noteq> []"
  "findHandler r = Handler (DeleteJobRoute i) \<Longrightarrow> i \<noteq> [] \<and> hr_method r = ''DELETE''"
  by (auto simp: findHandler_def match_route_def Let_def match_method_job_id
      split: if_splits option.splits dest: match_method_job_id)

subsection \<open>The health path\<close>

lemma split_slash_no_slash: "CHR ''/'' \<notin> set s \<Longrightarrow> split_slash s = [s]"
  by (induction s) auto

lemma unescape_path_plain:
  "c \<noteq> CHR ''%'' \<Longrightarrow> unescape encodePath (c # cs) = sbind (unescape encodePath cs) (\<lambda>t. Inr (c # t))"
  by simp

lemma unescape_path_hex:
  "unescape encodePath (CHR ''%'' # cs) = Inr t \<Longrightarrow>
     \<exists>a b rest u. cs = a # b # rest \<and> ishex a \<and> ishex b \<and> unescape encodePath rest = Inr u
       \<and> t = char_of (16 * unhex a + unhex b) # u"
  by (auto simp: sbind_eq_Inr_iff split: if_splits list.splits)

lemma not_hex_slash: "\<not> ishex (CHR ''/'')"
  by code_simp

lemma unescape_path_slashes:
  "unescape encodePath s = Inr t \<Longrightarrow> CHR ''/'' \<in> set s \<Longrightarrow> CHR ''/'' \<in> set t"
proof (induction s arbitrary: t rule: length_induct)
  case (1 s)
  from 1(3) obtain c cs where s: "s = c # cs" by (cases s) simp_all
  show ?case
  proof (cases "c = CHR ''%''")
    case True
    from 1(2) unescape_path_hex [of cs t] obtain a b rest u where
      h: "cs = a # b # rest" "ishex a" "ishex b" "unescape encodePath rest = Inr u"
        "t = char_of (16 * unhex a + unhex b) # u" unfolding s True by blast
    have "CHR ''/'' \<in> set rest" using 1(3) h(1-3) not_hex_slash unfolding s True by auto
    then have "CHR ''/'' \<in> set u" using 1(1) [THEN spec, of rest] h(1,4) s by simp
    with h(5) show ?thesis by simp
  next
    case False
    from 1(2) [unfolded s unescape_path_plain [OF False]] obtain u where
      u: "unescape encodePath cs = Inr u" "t = c # u" by (auto simp: sbind_eq_Inr_iff)
    with 1(1,3) s show ?thesis by auto
  qed
qed

text \<open>A request whose decoded path is \<open>/health\<close> reaches no other handler than \<open>handleHealth\<close>.\<close>

lemma health_path_routes:
  assumes "URL_Path r = ''/health''" "findHandler r = Handler rt"
  shows "rt = GetHealth"
proof -
  obtain rest where p: "hr_path r = CHR ''/'' # rest"
    using assms(2) by (auto simp: findHandler_def path_segments_def match_route_def match_method_def
        matchingMethods_def Let_def split: if_splits option.splits list.splits)
  have "path_unescape rest = ''health''"
  proof (cases "unescape encodePath rest")
    case (Inl e)
    then show ?thesis using assms(1) by (simp add: URL_Path_def path_unescape_def p)
  next
    case (Inr t)
    then show ?thesis using assms(1) by (simp add: URL_Path_def path_unescape_def p)
  qed
  moreover have "CHR ''/'' \<notin> set rest"
    using calculation unescape_path_slashes [of rest]
    by (auto simp: path_unescape_def split: sum.splits)
  ultimately have "path_segments (hr_path r) = [''health'']"
    by (simp add: p path_segments_def split_slash_no_slash)
  with assms(2) show ?thesis
    by (auto simp: findHandler_def Let_def match_route_def match_method_def split: if_splits option.splits)
qed

end
