(* ===== verification/HttpApi.thy ===== *)
theory HttpApi
  imports HttpServer
begin

text \<open>
  \<open>internal/httpapi\<close>: the handlers, the three middlewares and their order, over any store. A handler
  takes the request, the headers already set on the writer, and the state of the store. What one
  request takes from its surroundings is the record \<open>api_env\<close>: the new UUID, the clock, and the
  decoding of the body by \<open>encoding/json\<close>.
\<close>

datatype resp_body =
    ErrorResponse string string
  | StatusResponse string
  | JobResponse Job
  | CreateJobResponse string
  | DeleteJobResponse bool
  | MuxResponse mux_result

record http_response =
  rs_status :: nat
  rs_headers :: header_map
  rs_body :: resp_body

record api_env =
  env_uuid :: string
  env_clock :: go_time
  decode_one_shot :: "string \<Rightarrow> string + CreateOneShotRequest"
  decode_recurring :: "string \<Rightarrow> string + CreateRecurringRequest"

type_synonym 's handler = "http_in \<Rightarrow> header_map \<Rightarrow> 's \<Rightarrow> http_response \<times> 's"

definition StatusOK :: nat where "StatusOK = 200"
definition StatusCreated :: nat where "StatusCreated = 201"
definition StatusMovedPermanently :: nat where "StatusMovedPermanently = 301"
definition StatusBadRequest :: nat where "StatusBadRequest = 400"
definition StatusUnauthorized :: nat where "StatusUnauthorized = 401"
definition StatusNotFound :: nat where "StatusNotFound = 404"
definition StatusMethodNotAllowed :: nat where "StatusMethodNotAllowed = 405"
definition StatusInternalServerError :: nat where "StatusInternalServerError = 500"
definition StatusServiceUnavailable :: nat where "StatusServiceUnavailable = 503"

lemmas status_codes = StatusOK_def StatusCreated_def StatusMovedPermanently_def StatusBadRequest_def
  StatusUnauthorized_def StatusNotFound_def StatusMethodNotAllowed_def StatusInternalServerError_def
  StatusServiceUnavailable_def

subsection \<open>Handlers\<close>

definition writeJSON :: "header_map \<Rightarrow> nat \<Rightarrow> resp_body \<Rightarrow> http_response" where
  "writeJSON h status data =
     \<lparr>rs_status = status, rs_headers = set_header ''Content-Type'' ''application/json'' h, rs_body = data\<rparr>"

definition writeError :: "header_map \<Rightarrow> nat \<Rightarrow> string \<Rightarrow> string \<Rightarrow> http_response" where
  "writeError h status errCode message = writeJSON h status (ErrorResponse errCode message)"

definition handleHealth :: "'s Store \<Rightarrow> 's handler" where
  "handleHealth st r h s =
     (case Ping st s of
        (Some e, s1) \<Rightarrow> (writeError h StatusServiceUnavailable ''unhealthy'' ''Redis connection failed'', s1)
      | (None, s1) \<Rightarrow> (writeJSON h StatusOK (StatusResponse ''ok''), s1))"

definition handleCreateOneShot :: "golib \<Rightarrow> 's Store \<Rightarrow> Config \<Rightarrow> api_env \<Rightarrow> 's handler" where
  "handleCreateOneShot lib st cfg env r h s =
     (case decode_one_shot env (hr_body r) of
        Inl e \<Rightarrow> (writeError h StatusBadRequest ''invalid_request'' (''Invalid JSON body: '' @ e), s)
      | Inr req \<Rightarrow>
          (case CreateOneShotRequest_Validate lib req (DefaultTimeoutMs cfg) of
             Inl e \<Rightarrow> (writeError h StatusBadRequest ''validation_error'' (validation_text lib e), s)
           | Inr req \<Rightarrow>
               let jobID = env_uuid env;
                   job = NewOneShotJob jobID req (DefaultTimeoutMs cfg) (env_clock env)
               in (case CreateJob st job s of
                     (Some e, s1) \<Rightarrow>
                       (writeError h StatusInternalServerError ''internal_error'' ''Failed to create job'', s1)
                   | (None, s1) \<Rightarrow> (writeJSON h StatusCreated (CreateJobResponse jobID), s1))))"

definition handleCreateRecurring :: "golib \<Rightarrow> 's Store \<Rightarrow> Config \<Rightarrow> api_env \<Rightarrow> 's handler" where
  "handleCreateRecurring lib st cfg env r h s =
     (case decode_recurring env (hr_body r) of
        Inl e \<Rightarrow> (writeError h StatusBadRequest ''invalid_request'' (''Invalid JSON body: '' @ e), s)
      | Inr req \<Rightarrow>
          (case CreateRecurringRequest_Validate lib req (DefaultTimeoutMs cfg) of
             Inl e \<Rightarrow> (writeError h StatusBadRequest ''validation_error'' (validation_text lib e), s)
           | Inr req \<Rightarrow>
               let jobID = env_uuid env;
                   job = NewRecurringJob jobID req (DefaultTimeoutMs cfg) (env_clock env)
               in (case CreateJob st job s of
                     (Some e, s1) \<Rightarrow>
                       (writeError h StatusInternalServerError ''internal_error'' ''Failed to create job'', s1)
                   | (None, s1) \<Rightarrow> (writeJSON h StatusCreated (CreateJobResponse jobID), s1))))"

definition handleGetJob :: "'s Store \<Rightarrow> string \<Rightarrow> 's handler" where
  "handleGetJob st jobID r h s =
     (if jobID = [] then (writeError h StatusBadRequest ''invalid_request'' ''job_id is required'', s)
      else case GetJob st jobID s of
             (Inl e, s1) \<Rightarrow>
               (if e = ErrJobNotFound then (writeError h StatusNotFound ''not_found'' ''Job not found'', s1)
                else (writeError h StatusInternalServerError ''internal_error'' ''Failed to get job'', s1))
           | (Inr job, s1) \<Rightarrow> (writeJSON h StatusOK (JobResponse job), s1))"

definition handleDeleteJob :: "'s Store \<Rightarrow> string \<Rightarrow> 's handler" where
  "handleDeleteJob st jobID r h s =
     (if jobID = [] then (writeError h StatusBadRequest ''invalid_request'' ''job_id is required'', s)
      else case GetJob st jobID s of
             (Inl e, s1) \<Rightarrow>
               (if e = ErrJobNotFound then (writeError h StatusNotFound ''not_found'' ''Job not found'', s1)
                else (writeError h StatusInternalServerError ''internal_error'' ''Failed to delete job'', s1))
           | (Inr job, s1) \<Rightarrow>
               (case DeleteJob st jobID s1 of
                  (Some e, s2) \<Rightarrow>
                    (writeError h StatusInternalServerError ''internal_error'' ''Failed to delete job'', s2)
                | (None, s2) \<Rightarrow> (writeJSON h StatusOK (DeleteJobResponse True), s2)))"

subsection \<open>Routes and middlewares\<close>

fun handle_route :: "golib \<Rightarrow> 's Store \<Rightarrow> Config \<Rightarrow> api_env \<Rightarrow> route \<Rightarrow> 's handler" where
  "handle_route lib st cfg env GetHealth = handleHealth st"
| "handle_route lib st cfg env PostOneShot = handleCreateOneShot lib st cfg env"
| "handle_route lib st cfg env PostRecurring = handleCreateRecurring lib st cfg env"
| "handle_route lib st cfg env (GetJobRoute jobID) = handleGetJob st jobID"
| "handle_route lib st cfg env (DeleteJobRoute jobID) = handleDeleteJob st jobID"

fun mux_status :: "mux_result \<Rightarrow> nat" where
  "mux_status (Handler rt) = StatusOK"
| "mux_status (Redirect p) = StatusMovedPermanently"
| "mux_status (MethodNotAllowedFor ms) = StatusMethodNotAllowed"
| "mux_status NotFound = StatusNotFound"

definition mux_handler :: "golib \<Rightarrow> 's Store \<Rightarrow> Config \<Rightarrow> api_env \<Rightarrow> 's handler" where
  "mux_handler lib st cfg env r h s =
     (case findHandler r of
        Handler rt \<Rightarrow> handle_route lib st cfg env rt r h s
      | other \<Rightarrow> (\<lparr>rs_status = mux_status other, rs_headers = h, rs_body = MuxResponse other\<rparr>, s))"

definition ServerHeader :: string where
  "ServerHeader = ''TickHook/1.0''"

definition serverHeaderMiddleware :: "'s handler \<Rightarrow> 's handler" where
  "serverHeaderMiddleware nxt r h s = nxt r (set_header ''Server'' ServerHeader h) s"

text \<open>\<open>strings.SplitN(h, " ", 2)\<close> with two parts.\<close>

definition split_two :: "string \<Rightarrow> (string \<times> string) option" where
  "split_two h = (if CHR '' '' \<in> set h then Some (cut (CHR '' '') h) else None)"

definition authMiddleware :: "Config \<Rightarrow> 's handler \<Rightarrow> 's handler" where
  "authMiddleware cfg nxt r h s =
     (if URL_Path r = ''/health'' then nxt r h s
      else if hr_authorization r = [] then
        (writeError h StatusUnauthorized ''unauthorized'' ''Authorization header is required'', s)
      else case split_two (hr_authorization r) of
             None \<Rightarrow>
               (writeError h StatusUnauthorized ''unauthorized'' ''Authorization header must be Bearer token'', s)
           | Some (scheme, token) \<Rightarrow>
               if \<not> EqualFold scheme ''bearer'' then
                 (writeError h StatusUnauthorized ''unauthorized'' ''Authorization header must be Bearer token'', s)
               else if token \<noteq> AuthToken cfg then
                 (writeError h StatusUnauthorized ''unauthorized'' ''Invalid token'', s)
               else nxt r h s)"

text \<open>The log line of a request; every handler writes the status once, through the wrapper.\<close>

record request_log =
  log_method :: string
  log_path :: string
  log_status :: nat

definition loggingMiddleware ::
    "'s handler \<Rightarrow> http_in \<Rightarrow> header_map \<Rightarrow> 's \<Rightarrow> (http_response \<times> request_log) \<times> 's" where
  "loggingMiddleware nxt r h s =
     (let (resp, s1) = nxt r h s
      in ((resp, \<lparr>log_method = hr_method r, log_path = URL_Path r, log_status = rs_status resp\<rparr>), s1))"

text \<open>The handler that \<open>NewServer\<close> builds, for one request.\<close>

definition ServeHTTP ::
    "golib \<Rightarrow> 's Store \<Rightarrow> Config \<Rightarrow> api_env \<Rightarrow> http_in \<Rightarrow> 's \<Rightarrow> (http_response \<times> request_log) \<times> 's" where
  "ServeHTTP lib st cfg env r s =
     (let handler = mux_handler lib st cfg env;
          handler = serverHeaderMiddleware handler;
          handler = authMiddleware cfg handler
      in loggingMiddleware handler r Map.empty s)"

subsection \<open>Authorization\<close>

definition authorized :: "Config \<Rightarrow> http_in \<Rightarrow> bool" where
  "authorized cfg r \<longleftrightarrow>
     (\<exists>scheme. hr_authorization r = scheme @ '' '' @ AuthToken cfg \<and> EqualFold scheme ''bearer'')"

lemma bearer_no_space: "EqualFold scheme ''bearer'' \<Longrightarrow> CHR '' '' \<notin> set scheme"
proof
  assume "EqualFold scheme ''bearer''" "CHR '' '' \<in> set scheme"
  then have "ascii_lower (CHR '' '') \<in> set (map ascii_lower ''bearer'')"
    unfolding EqualFold_def by (metis image_eqI list.set_map)
  moreover have "\<not> ascii_lower (CHR '' '') \<in> set (map ascii_lower ''bearer'')" by code_simp
  ultimately show False by blast
qed

lemma cut_append: "CHR '' '' \<notin> set a \<Longrightarrow> cut (CHR '' '') (a @ '' '' @ b) = (a, b)"
  by (induction a) (auto simp: cut_def)

lemma cut_split: "CHR '' '' \<in> set h \<Longrightarrow> cut (CHR '' '') h = (a, b) \<Longrightarrow> h = a @ '' '' @ b"
proof -
  assume m: "CHR '' '' \<in> set h" and c: "cut (CHR '' '') h = (a, b)"
  obtain u v where "h = u @ CHR '' '' # v" "CHR '' '' \<notin> set u" using m split_list_first by metis
  with c cut_append [of u v] show ?thesis by simp
qed

lemma auth_pass:
  assumes "URL_Path r = ''/health'' \<or> authorized cfg r"
  shows "authMiddleware cfg nxt r h s = nxt r h s"
proof (cases "URL_Path r = ''/health''")
  case True
  then show ?thesis by (simp add: authMiddleware_def)
next
  case False
  with assms obtain scheme where a: "hr_authorization r = scheme @ '' '' @ AuthToken cfg"
    and b: "EqualFold scheme ''bearer''" by (auto simp: authorized_def)
  have "split_two (hr_authorization r) = Some (scheme, AuthToken cfg)"
    using cut_append [OF bearer_no_space [OF b]] by (simp add: split_two_def a)
  with False b show ?thesis by (simp add: authMiddleware_def a)
qed

lemma auth_block:
  assumes "URL_Path r \<noteq> ''/health''" "\<not> authorized cfg r"
  shows "\<exists>m. authMiddleware cfg nxt r h s = (writeError h StatusUnauthorized ''unauthorized'' m, s)"
proof -
  have "\<not> (split_two (hr_authorization r) = Some (scheme, AuthToken cfg) \<and> EqualFold scheme ''bearer'')" for scheme
    using assms(2) cut_split [of "hr_authorization r"] by (auto simp: authorized_def split_two_def split: if_splits)
  with assms(1) show ?thesis by (auto simp: authMiddleware_def split: option.split)
qed

lemma ServeHTTP_pass:
  "URL_Path r = ''/health'' \<or> authorized cfg r \<Longrightarrow> ServeHTTP lib st cfg env r s =
     (let (resp, s1) = mux_handler lib st cfg env r [''Server'' \<mapsto> ServerHeader] s
      in ((resp, \<lparr>log_method = hr_method r, log_path = URL_Path r, log_status = rs_status resp\<rparr>), s1))"
proof -
  assume a: "URL_Path r = ''/health'' \<or> authorized cfg r"
  have "CanonicalKey ''Server'' = ''Server''" by code_simp
  then show ?thesis
    by (simp add: ServeHTTP_def loggingMiddleware_def auth_pass [OF a] serverHeaderMiddleware_def set_header_def Let_def)
qed

lemma ServeHTTP_block:
  assumes "URL_Path r \<noteq> ''/health''" "\<not> authorized cfg r"
  shows "\<exists>m. ServeHTTP lib st cfg env r s =
    ((writeError Map.empty StatusUnauthorized ''unauthorized'' m,
      \<lparr>log_method = hr_method r, log_path = URL_Path r, log_status = StatusUnauthorized\<rparr>), s)"
  using auth_block [OF assms, of "serverHeaderMiddleware (mux_handler lib st cfg env)" Map.empty s]
  by (auto simp: ServeHTTP_def loggingMiddleware_def writeError_def writeJSON_def Let_def)

subsection \<open>The handlers over any store\<close>

definition mux_outcome :: "golib \<Rightarrow> 's Store \<Rightarrow> Config \<Rightarrow> api_env \<Rightarrow> http_in \<Rightarrow> 's \<Rightarrow> http_response \<times> 's" where
  "mux_outcome lib st cfg env r s = mux_handler lib st cfg env r [''Server'' \<mapsto> ServerHeader] s"

lemma writeJSON_simps [simp]:
  "rs_status (writeJSON h c d) = c" "rs_body (writeJSON h c d) = d"
  "rs_status (writeError h c e m) = c" "rs_body (writeError h c e m) = ErrorResponse e m"
  by (simp_all add: writeJSON_def writeError_def)

lemma writeJSON_server [simp]: "rs_headers (writeJSON h c d) ''Server'' = h ''Server''"
  "rs_headers (writeError h c e m) ''Server'' = h ''Server''"
proof -
  have "CanonicalKey ''Content-Type'' = ''Content-Type''" by code_simp
  then show "rs_headers (writeJSON h c d) ''Server'' = h ''Server''"
    "rs_headers (writeError h c e m) ''Server'' = h ''Server''"
    by (simp_all add: writeJSON_def writeError_def set_header_def)
qed

lemma route_keeps_server:
  "rs_headers (fst (handle_route lib st cfg env rt r h s)) ''Server'' = h ''Server''"
  by (cases rt) (auto simp: handleHealth_def handleCreateOneShot_def handleCreateRecurring_def
      handleGetJob_def handleDeleteJob_def Let_def split: prod.split option.split sum.split)

lemma handlers_keep_server:
  "rs_headers (fst (mux_handler lib st cfg env r h s)) ''Server'' = h ''Server''"
  by (auto simp: mux_handler_def route_keeps_server split: mux_result.split)

text \<open>The job that a creation request stores, when its body decodes and is accepted.\<close>

definition one_shot_job :: "golib \<Rightarrow> Config \<Rightarrow> api_env \<Rightarrow> http_in \<Rightarrow> Job option" where
  "one_shot_job lib cfg env r =
     (case decode_one_shot env (hr_body r) of Inl e \<Rightarrow> None
      | Inr req \<Rightarrow> (case CreateOneShotRequest_Validate lib req (DefaultTimeoutMs cfg) of Inl e \<Rightarrow> None
         | Inr req \<Rightarrow> Some (NewOneShotJob (env_uuid env) req (DefaultTimeoutMs cfg) (env_clock env))))"

definition recurring_job :: "golib \<Rightarrow> Config \<Rightarrow> api_env \<Rightarrow> http_in \<Rightarrow> Job option" where
  "recurring_job lib cfg env r =
     (case decode_recurring env (hr_body r) of Inl e \<Rightarrow> None
      | Inr req \<Rightarrow> (case CreateRecurringRequest_Validate lib req (DefaultTimeoutMs cfg) of Inl e \<Rightarrow> None
         | Inr req \<Rightarrow> Some (NewRecurringJob (env_uuid env) req (DefaultTimeoutMs cfg) (env_clock env))))"

definition created_job :: "golib \<Rightarrow> Config \<Rightarrow> api_env \<Rightarrow> http_in \<Rightarrow> Job option" where
  "created_job lib cfg env r =
     (case findHandler r of
        Handler PostOneShot \<Rightarrow> one_shot_job lib cfg env r
      | Handler PostRecurring \<Rightarrow> recurring_job lib cfg env r
      | _ \<Rightarrow> None)"

text \<open>A creation, written over the job it stores.\<close>

definition create_with :: "'s Store \<Rightarrow> header_map \<Rightarrow> Job option \<Rightarrow> 's \<Rightarrow> http_response \<times> 's \<Rightarrow> bool" where
  "create_with st h jo s res \<longleftrightarrow>
     (case jo of
        None \<Rightarrow> (\<exists>e m. res = (writeError h StatusBadRequest e m, s))
      | Some j \<Rightarrow>
          (case CreateJob st j s of
             (Some e, s1) \<Rightarrow> res =
               (writeError h StatusInternalServerError ''internal_error'' ''Failed to create job'', s1)
           | (None, s1) \<Rightarrow> res = (writeJSON h StatusCreated (CreateJobResponse (ID j)), s1)))"

lemma create_handlers:
  "create_with st h (one_shot_job lib cfg env r) s (handleCreateOneShot lib st cfg env r h s)"
  "create_with st h (recurring_job lib cfg env r) s (handleCreateRecurring lib st cfg env r h s)"
  by (auto simp: create_with_def one_shot_job_def recurring_job_def handleCreateOneShot_def
      handleCreateRecurring_def Let_def split: sum.split prod.split option.split)

lemma created_job_inv:
  assumes "0 < sint (DefaultTimeoutMs cfg)" "created_job lib cfg env r = Some j"
  shows "job_inv j \<and> ID j = env_uuid env \<and> Status j = JobStatusPending"
  using assms(2) new_one_shot_inv [OF _ assms(1)] new_recurring_inv [OF _ assms(1)]
  by (auto simp: created_job_def one_shot_job_def recurring_job_def
      split: mux_result.splits route.splits sum.splits)

context job_store
begin

lemma create_with_effect:
  assumes "inv s" "jobs_ok storable (look s)" "create_with st h (Some j) s (resp, s')"
    and "job_inv j" "storable j" "look s (ID j) = Inl ErrJobNotFound"
  shows "inv s' \<and> jobs_ok storable (look s') \<and> (\<forall>k. k \<noteq> ID j \<longrightarrow> look s' k = look s k \<and> due s' k = due s k)
    \<and> (rs_status resp = StatusCreated \<and> rs_body resp = CreateJobResponse (ID j)
          \<and> look s' (ID j) = Inr j \<and> due s' (ID j) = Some (score (DueAtMs j))
       \<or> rs_status resp = StatusInternalServerError
          \<and> (look s' = look s \<and> due s' = due s
             \<or> look s' (ID j) = Inr j \<and> due s' (ID j) = Some (score (DueAtMs j))))"
proof -
  obtain e s1 where c: "CreateJob st j s = (e, s1)" by (rule prod.exhaust)
  have m: "merged None j = j" using merged_None job_inv_interval [OF assms(4)] .
  have s1: "s' = s1" using assms(3) by (auto simp: create_with_def c split: option.splits)
  note ok = create_inv [OF assms(1) c] create_jobs_ok [OF assms(1) c assms(4,5,2,6)]
  show ?thesis
  proof (cases e)
    case None
    with assms(3) have "resp = writeJSON h StatusCreated (CreateJobResponse (ID j))"
      by (simp add: create_with_def c)
    with None ok create_ok [OF assms(1), of j s1] create_then_look [OF assms(1), of j s1]
      c assms(4-6) job_inv_interval s1 show ?thesis by auto
  next
    case (Some er)
    with assms(3) have r: "rs_status resp = StatusInternalServerError" by (simp add: create_with_def c)
    from create_fail [OF assms(1), of j er s1] c Some assms(5,6) m
    have "due s1 = due s \<and> look s1 = look s \<or> due s1 = (due s)(ID j \<mapsto> score (DueAtMs j))
        \<and> (\<forall>i. i \<noteq> ID j \<longrightarrow> look s1 i = look s i) \<and> look s1 (ID j) = Inr j" by auto
    with r ok s1 show ?thesis by auto
  qed
qed

lemma health_effect:
  "inv s \<Longrightarrow> handleHealth st r h s = (resp, s') \<Longrightarrow> inv s' \<and> look s' = look s \<and> due s' = due s"
  using ping_frame [of s] by (auto simp: handleHealth_def split: prod.splits option.splits)

lemma get_effect:
  assumes "inv s" "i \<noteq> []" "handleGetJob st i r h s = (resp, s')"
  shows "inv s' \<and> look s' = look s \<and> due s' = due s
    \<and> (rs_status resp = StatusOK \<and> (\<exists>j. rs_body resp = JobResponse j \<and> look s i = Inr j)
       \<or> rs_status resp = StatusNotFound \<and> look s i = Inl ErrJobNotFound
       \<or> rs_status resp = StatusInternalServerError)"
proof -
  obtain rd s1 where g: "GetJob st i s = (rd, s1)" by (rule prod.exhaust)
  note f = get_frame [OF assms(1) g] and ans = get_found [OF assms(1)] get_missing [OF assms(1)]
  show ?thesis
  proof (cases rd)
    case (Inl e)
    with assms(2,3) f ans(2) [of i s1] g show ?thesis
      by (cases "e = ErrJobNotFound") (auto simp: handleGetJob_def)
  next
    case (Inr j)
    with assms(2,3) f ans(1) [of i j s1] g show ?thesis by (auto simp: handleGetJob_def)
  qed
qed

lemma delete_effect:
  assumes "inv s" "jobs_ok storable (look s)" "i \<noteq> []" "handleDeleteJob st i r h s = (resp, s')"
  shows "inv s' \<and> jobs_ok storable (look s') \<and> (\<forall>k. k \<noteq> i \<longrightarrow> look s' k = look s k \<and> due s' k = due s k)
    \<and> (rs_status resp = StatusOK \<and> rs_body resp = DeleteJobResponse True \<and> (\<exists>j. look s i = Inr j)
          \<and> look s' i = Inl ErrJobNotFound \<and> due s' i = None
       \<or> rs_status resp = StatusNotFound \<and> look s i = Inl ErrJobNotFound \<and> look s' = look s \<and> due s' = due s
       \<or> rs_status resp = StatusInternalServerError
          \<and> (look s' i = look s i \<and> due s' i = due s i \<or> look s' i = Inl ErrJobNotFound \<and> due s' i = None))"
proof -
  obtain rd s1 where g: "GetJob st i s = (rd, s1)" by (rule prod.exhaust)
  note f = get_frame [OF assms(1) g] and ans = get_found [OF assms(1)] get_missing [OF assms(1)]
  have inv1: "inv s1" and ok1: "jobs_ok storable (look s1)" using f assms(2) by simp_all
  show ?thesis
  proof (cases rd)
    case (Inl e)
    with assms f ans(2) [of i s1] g show ?thesis
      by (cases "e = ErrJobNotFound") (auto simp: handleDeleteJob_def)
  next
    case (Inr j)
    obtain e s2 where d: "DeleteJob st i s1 = (e, s2)" by (rule prod.exhaust)
    note fd = delete_frame [OF inv1 d] delete_jobs_ok [OF inv1 d ok1]
    show ?thesis
    proof (cases e)
      case None
      with Inr assms(3,4) have "resp = writeJSON h StatusOK (DeleteJobResponse True)" "s' = s2"
        by (simp_all add: handleDeleteJob_def g d)
      with fd f delete_ok [OF inv1, of i s2] d None ans(1) [of i j s1] g Inr show ?thesis by simp
    next
      case (Some er)
      with Inr assms(3,4) have "rs_status resp = StatusInternalServerError" "s' = s2"
        by (auto simp: handleDeleteJob_def g d)
      with fd f delete_fail [OF inv1, of i er s2] d Some show ?thesis by simp
    qed
  qed
qed

text \<open>Any request that reaches the mux.\<close>

lemma mux_effect:
  assumes "inv s" "jobs_ok storable (look s)" "0 < sint (DefaultTimeoutMs cfg)"
    and "\<And>j. created_job lib cfg env r = Some j \<Longrightarrow> storable j"
    and "look s (env_uuid env) = Inl ErrJobNotFound"
    and "mux_handler lib st cfg env r h s = (resp, s')"
  shows "inv s' \<and> jobs_ok storable (look s')
    \<and> (\<forall>k. look s' k = look s k \<and> due s' k = due s k
         \<or> (\<exists>j. created_job lib cfg env r = Some j \<and> ID j = k) \<or> findHandler r = Handler (DeleteJobRoute k))"
proof -
  have create: "inv s' \<and> jobs_ok storable (look s')
      \<and> (\<forall>k. look s' k = look s k \<and> due s' k = due s k \<or> (\<exists>j. created_job lib cfg env r = Some j \<and> ID j = k))"
    if c: "create_with st h (created_job lib cfg env r) s (resp, s')"
  proof (cases "created_job lib cfg env r")
    case None
    with c assms(1,2) show ?thesis by (auto simp: create_with_def)
  next
    case (Some j)
    note cj = created_job_inv [OF assms(3) Some]
    have "look s (ID j) = Inl ErrJobNotFound" using cj assms(5) by simp
    from create_with_effect [OF assms(1,2) c [unfolded Some] _ assms(4) [OF Some] this] cj Some
    show ?thesis by auto
  qed
  show ?thesis
  proof (cases "findHandler r")
    case (Handler rt)
    have m: "handle_route lib st cfg env rt r h s = (resp, s')" using assms(6) by (simp add: mux_handler_def Handler)
    show ?thesis
    proof (cases rt)
      case GetHealth
      with health_effect [OF assms(1)] m assms(2) show ?thesis by force
    next
      case PostOneShot
      with create create_handlers(1) [of st h lib cfg env r s] m Handler show ?thesis
        by (auto simp: created_job_def)
    next
      case PostRecurring
      with create create_handlers(2) [of st h lib cfg env r s] m Handler show ?thesis
        by (auto simp: created_job_def)
    next
      case (GetJobRoute i)
      with get_effect [OF assms(1) findHandler_job_id(1)] m Handler assms(2) show ?thesis by force
    next
      case (DeleteJobRoute i)
      with delete_effect [OF assms(1,2)] findHandler_job_id(2) [of r i] m Handler show ?thesis by auto
    qed
  qed (use assms in \<open>auto simp: mux_handler_def\<close>)
qed

end

subsection \<open>Requests for concrete runs\<close>

definition sample_api :: Config where
  "sample_api = DefaultConfig\<lparr>RedisURL := ''redis://h:1'', AuthToken := ''t''\<rparr>"

definition sample_env :: api_env where
  "sample_env = \<lparr>env_uuid = ''j9'', env_clock = \<lparr>t_unix = 1700000000, t_nsec = 0\<rparr>,
     decode_one_shot = (\<lambda>_. Inr sample_one_shot), decode_recurring = (\<lambda>_. Inr sample_recurring)\<rparr>"

definition sample_req :: "string \<Rightarrow> string \<Rightarrow> string \<Rightarrow> http_in" where
  "sample_req method path auth =
     \<lparr>hr_method = method, hr_path = path, hr_authorization = auth, hr_body = ''{}''\<rparr>"

lemma sample_api_simps [simp]: "AuthToken sample_api = ''t''" "DefaultTimeoutMs sample_api = 5000"
  by (simp_all add: sample_api_def DefaultConfig_def)

lemma sample_env_simps [simp]: "env_uuid sample_env = ''j9''" "decode_one_shot sample_env = (\<lambda>_. Inr sample_one_shot)"
  by (simp_all add: sample_env_def)

lemma sample_authorized: "authorized sample_api (sample_req method path ''bEARER t'')"
proof -
  have "EqualFold ''bEARER'' ''bearer''" by code_simp
  then show ?thesis unfolding authorized_def by (intro exI [of _ "''bEARER''"]) (simp add: sample_req_def)
qed

lemma sample_routes:
  "findHandler (sample_req ''GET'' ''/v1/jobs/j1'' a) = Handler (GetJobRoute ''j1'')"
  "findHandler (sample_req ''DELETE'' ''/v1/jobs/j1'' a) = Handler (DeleteJobRoute ''j1'')"
  "findHandler (sample_req ''POST'' ''/v1/jobs/one-shot'' a) = Handler PostOneShot"
  by code_simp+

definition sample_new :: Job where
  "sample_new = NewOneShotJob ''j9'' (sample_one_shot\<lparr>os_Webhook :=
     sample_webhook\<lparr>wh_Method := ''PUT'', wh_TimeoutMs := 5000\<rparr>\<rparr>) 5000 (env_clock sample_env)"

lemma sample_created:
  "created_job plain_lib sample_api sample_env (sample_req ''POST'' ''/v1/jobs/one-shot'' a) = Some sample_new"
  by (simp add: created_job_def sample_routes one_shot_job_def sample_one_shot_valid sample_new_def)

lemma sample_new_storable: "storable plain_lib sample_new"
  by (simp add: storable_def sample_new_def NewOneShotJob_def Let_def sample_webhook_def)

lemma sample_created_storable: "created_job plain_lib sample_api sample_env
    (sample_req ''POST'' ''/v1/jobs/one-shot'' a) = Some j \<Longrightarrow> storable plain_lib j"
  using sample_created sample_new_storable by simp

lemma ref_init_valid: "valid_store plain_lib ref_store (rdb ref_init)"
  by (simp add: jobs_ok_def ref_init_look)

subsection \<open>Properties of the API\<close>

lemmas mux_effect = job_store.mux_effect [OF redis_contract]
lemmas health_effect = job_store.health_effect [OF redis_contract]
lemmas delete_effect = job_store.delete_effect [OF redis_contract]
lemmas create_with_effect = job_store.create_with_effect [OF redis_contract]

text \<open>C14 Without the token nothing happens: a request that does not carry the word bearer, in any case, one
  space and exactly the token is answered 401 and leaves the store as it is, unless its path is
  /health, and then it changes no job and no schedule entry either. This covers every method and
  every way to escape the path.\<close>

theorem no_token_no_effect:
  assumes "redis_service (client rs) db" "db_wf (db s)" "\<not> authorized cfg r"
    and "ServeHTTP lib (redis_Store lib rs) cfg env r s = ((resp, lg), s')"
  shows "redis_look lib rs (db s') = redis_look lib rs (db s) \<and> redis_due rs (db s') = redis_due rs (db s)
    \<and> (URL_Path r \<noteq> ''/health'' \<longrightarrow> s' = s \<and> rs_status resp = StatusUnauthorized)"
proof (cases "URL_Path r = ''/health''")
  case False
  with ServeHTTP_block [OF False assms(3), of lib "redis_Store lib rs" env s] assms(4) show ?thesis by auto
next
  case True
  with assms(4) have m: "mux_handler lib (redis_Store lib rs) cfg env r [''Server'' \<mapsto> ServerHeader] s = (resp, s')"
    by (auto simp: ServeHTTP_pass Let_def split: prod.splits)
  show ?thesis
  proof (cases "findHandler r")
    case (Handler rt)
    with health_path_routes [OF True] m have "handleHealth (redis_Store lib rs) r [''Server'' \<mapsto> ServerHeader] s = (resp, s')"
      by (simp add: mux_handler_def)
    from health_effect [OF assms(1,2) this] True show ?thesis by simp
  qed (use m True in \<open>auto simp: mux_handler_def\<close>)
qed

theorem no_token_no_effect_witness:
  "\<exists>resp lg s'. ServeHTTP plain_lib (redis_Store plain_lib ref_store) sample_api sample_env
      (sample_req ''DELETE'' ''/v1/jobs/j1'' ''Bearer wrong'') (ref_created sample_job) = ((resp, lg), s')
    \<and> rs_status resp = 401 \<and> s' = ref_created sample_job"
proof -
  obtain resp lg s' where run: "ServeHTTP plain_lib (redis_Store plain_lib ref_store) sample_api sample_env
      (sample_req ''DELETE'' ''/v1/jobs/j1'' ''Bearer wrong'') (ref_created sample_job) = ((resp, lg), s')"
    by (metis prod.exhaust)
  have "\<not> authorized sample_api (sample_req ''DELETE'' ''/v1/jobs/j1'' ''Bearer wrong'')"
  proof
    assume "authorized sample_api (sample_req ''DELETE'' ''/v1/jobs/j1'' ''Bearer wrong'')"
    then obtain scheme where "''Bearer wrong'' = scheme @ '' t''" by (auto simp: authorized_def sample_req_def)
    then have "last ''Bearer wrong'' = last (scheme @ '' t'')" by simp
    then show False by simp
  qed
  moreover have "URL_Path (sample_req ''DELETE'' ''/v1/jobs/j1'' ''Bearer wrong'') \<noteq> ''/health''" by code_simp
  ultimately show ?thesis
    using no_token_no_effect [OF ref_service _ _ run] ref_created(3) [OF sample_job_storable] run
    by (auto simp: status_codes)
qed

text \<open>C39 The Server header is on a response exactly when the request was let through: the rejections, which
  the authorization middleware writes outside of the header middleware, go without it.\<close>

theorem server_header_iff_let_through:
  assumes "ServeHTTP lib st cfg env r s = ((resp, lg), s')"
  shows "(rs_headers resp ''Server'' = Some ''TickHook/1.0'') = (URL_Path r = ''/health'' \<or> authorized cfg r)
    \<and> log_status lg = rs_status resp"
proof (cases "URL_Path r = ''/health'' \<or> authorized cfg r")
  case True
  with assms handlers_keep_server [of lib st cfg env r "[''Server'' \<mapsto> ServerHeader]" s] show ?thesis
    by (auto simp: ServeHTTP_pass ServerHeader_def Let_def split: prod.splits)
next
  case False
  with ServeHTTP_block [of r cfg lib st env s] assms show ?thesis by auto
qed

theorem server_header_iff_let_through_witness:
  "\<exists>resp lg s'. ServeHTTP plain_lib (redis_Store plain_lib ref_store) sample_api sample_env
      (sample_req ''GET'' ''/v1/jobs/j1'' ''bEARER t'') (ref_created sample_job) = ((resp, lg), s')
    \<and> rs_headers resp ''Server'' = Some ''TickHook/1.0''"
proof -
  obtain resp lg s' where run: "ServeHTTP plain_lib (redis_Store plain_lib ref_store) sample_api sample_env
      (sample_req ''GET'' ''/v1/jobs/j1'' ''bEARER t'') (ref_created sample_job) = ((resp, lg), s')"
    by (metis prod.exhaust)
  from server_header_iff_let_through [OF run] sample_authorized run show ?thesis by blast
qed

lemma ServeHTTP_mux:
  assumes "ServeHTTP lib st cfg env r s = ((resp, lg), s')" "authorized cfg r"
  shows "mux_handler lib st cfg env r [''Server'' \<mapsto> ServerHeader] s = (resp, s')"
  using assms by (auto simp: ServeHTTP_pass Let_def split: prod.splits)

text \<open>C22 An authorized creation request is answered 400, without effect, when its body does not decode or
  is not accepted; otherwise the job built from it is valid, pending and has the new UUID, and the
  answer is 201 with that UUID, the job then being stored and scheduled at its requested time, or
  500, the store then being unchanged or holding the job and its schedule entry.\<close>

theorem creation_endpoint:
  assumes "redis_service (client rs) db" "valid_store lib rs (db s)"
    and "ServeHTTP lib (redis_Store lib rs) cfg env r s = ((resp, lg), s')" "authorized cfg r"
    and "findHandler r = Handler PostOneShot \<or> findHandler r = Handler PostRecurring"
    and "0 < sint (DefaultTimeoutMs cfg)" "\<And>j. created_job lib cfg env r = Some j \<Longrightarrow> storable lib j"
    and "redis_look lib rs (db s) (env_uuid env) = Inl ErrJobNotFound"
  shows "created_job lib cfg env r = None \<and> rs_status resp = StatusBadRequest \<and> s' = s
    \<or> (\<exists>j. created_job lib cfg env r = Some j \<and> ID j = env_uuid env \<and> job_inv j \<and> Status j = JobStatusPending
        \<and> (rs_status resp = StatusCreated \<and> rs_body resp = CreateJobResponse (env_uuid env)
             \<and> redis_look lib rs (db s') (env_uuid env) = Inr j
             \<and> redis_due rs (db s') (env_uuid env) = Some (score (DueAtMs j))
           \<or> rs_status resp = StatusInternalServerError
             \<and> (redis_look lib rs (db s') = redis_look lib rs (db s) \<and> redis_due rs (db s') = redis_due rs (db s)
                \<or> redis_look lib rs (db s') (env_uuid env) = Inr j
                   \<and> redis_due rs (db s') (env_uuid env) = Some (score (DueAtMs j)))))"
proof -
  have c: "create_with (redis_Store lib rs) [''Server'' \<mapsto> ServerHeader] (created_job lib cfg env r) s (resp, s')"
    using ServeHTTP_mux [OF assms(3,4)] assms(5) create_handlers [of "redis_Store lib rs" "[''Server'' \<mapsto> ServerHeader]" lib cfg env r s]
    by (auto simp: mux_handler_def created_job_def)
  show ?thesis
  proof (cases "created_job lib cfg env r")
    case None
    with c show ?thesis by (auto simp: create_with_def)
  next
    case (Some j)
    note cj = created_job_inv [OF assms(6) Some]
    have "redis_look lib rs (db s) (ID j) = Inl ErrJobNotFound" using cj assms(8) by simp
    from create_with_effect [OF assms(1) _ _ c [unfolded Some] _ assms(7) [OF Some] this] cj assms(2) Some
    show ?thesis by auto
  qed
qed

theorem creation_endpoint_witness:
  "\<exists>resp lg s'. ServeHTTP plain_lib (redis_Store plain_lib ref_store) sample_api sample_env
      (sample_req ''POST'' ''/v1/jobs/one-shot'' ''bEARER t'') ref_init = ((resp, lg), s')
    \<and> rs_status resp \<in> {201, 500} \<and> job_inv sample_new"
proof -
  obtain resp lg s' where run: "ServeHTTP plain_lib (redis_Store plain_lib ref_store) sample_api sample_env
      (sample_req ''POST'' ''/v1/jobs/one-shot'' ''bEARER t'') ref_init = ((resp, lg), s')"
    by (metis prod.exhaust)
  from creation_endpoint [OF ref_service ref_init_valid run sample_authorized disjI1 [OF sample_routes(3)] _
      sample_created_storable ref_init_look] run
  show ?thesis by (auto simp: status_codes sample_created)
qed

text \<open>C23 An authorized DELETE of a job answers 200 only if the job existed and is now gone with its schedule
  entry, 404 only if there was none and then without effect, or 500, both being there or both
  gone; no other job is touched.\<close>

theorem delete_endpoint:
  assumes "redis_service (client rs) db" "valid_store lib rs (db s)"
    and "ServeHTTP lib (redis_Store lib rs) cfg env r s = ((resp, lg), s')" "authorized cfg r"
    and "findHandler r = Handler (DeleteJobRoute i)"
  shows "(rs_status resp = StatusOK \<and> (\<exists>j. redis_look lib rs (db s) i = Inr j)
          \<and> redis_look lib rs (db s') i = Inl ErrJobNotFound \<and> redis_due rs (db s') i = None
       \<or> rs_status resp = StatusNotFound \<and> redis_look lib rs (db s) i = Inl ErrJobNotFound
          \<and> redis_look lib rs (db s') = redis_look lib rs (db s) \<and> redis_due rs (db s') = redis_due rs (db s)
       \<or> rs_status resp = StatusInternalServerError
          \<and> (redis_look lib rs (db s') i = redis_look lib rs (db s) i
                 \<and> redis_due rs (db s') i = redis_due rs (db s) i
             \<or> redis_look lib rs (db s') i = Inl ErrJobNotFound \<and> redis_due rs (db s') i = None))
    \<and> (k \<noteq> i \<longrightarrow> redis_look lib rs (db s') k = redis_look lib rs (db s) k
                \<and> redis_due rs (db s') k = redis_due rs (db s) k)"
proof -
  have "handleDeleteJob (redis_Store lib rs) i r [''Server'' \<mapsto> ServerHeader] s = (resp, s')"
    using ServeHTTP_mux [OF assms(3,4)] assms(5) by (simp add: mux_handler_def)
  moreover have "i \<noteq> []" using findHandler_job_id(2) [OF assms(5)] by simp
  ultimately show ?thesis using delete_effect [OF assms(1)] assms(2) by blast
qed

theorem delete_endpoint_witness:
  "\<exists>resp lg s'. ServeHTTP plain_lib (redis_Store plain_lib ref_store) sample_api sample_env
      (sample_req ''DELETE'' ''/v1/jobs/j1'' ''bEARER t'') (ref_created sample_job) = ((resp, lg), s')
    \<and> rs_status resp \<in> {200, 500}"
proof -
  obtain resp lg s' where run: "ServeHTTP plain_lib (redis_Store plain_lib ref_store) sample_api sample_env
      (sample_req ''DELETE'' ''/v1/jobs/j1'' ''bEARER t'') (ref_created sample_job) = ((resp, lg), s')"
    by (metis prod.exhaust)
  from delete_endpoint [OF ref_service ref_sample(1) run sample_authorized sample_routes(2)]
    run ref_created_look_sample show ?thesis by (auto simp: status_codes)
qed

text \<open>C21 No request breaks the store, authorized or not: every entry stays a valid job under its own id,
  and at most one job is touched, the new one or the one an authorized DELETE names.\<close>

theorem requests_keep_store_valid:
  assumes "redis_service (client rs) db" "valid_store lib rs (db s)"
    and "ServeHTTP lib (redis_Store lib rs) cfg env r s = ((resp, lg), s')"
    and "0 < sint (DefaultTimeoutMs cfg)" "\<And>j. created_job lib cfg env r = Some j \<Longrightarrow> storable lib j"
    and "redis_look lib rs (db s) (env_uuid env) = Inl ErrJobNotFound"
  shows "valid_store lib rs (db s')
    \<and> (redis_look lib rs (db s') k = redis_look lib rs (db s) k
        \<and> redis_due rs (db s') k = redis_due rs (db s) k
       \<or> k = env_uuid env \<or> findHandler r = Handler (DeleteJobRoute k))"
proof (cases "URL_Path r = ''/health'' \<or> authorized cfg r")
  case True
  with assms(3) have m: "mux_handler lib (redis_Store lib rs) cfg env r [''Server'' \<mapsto> ServerHeader] s = (resp, s')"
    by (auto simp: ServeHTTP_pass Let_def split: prod.splits)
  from mux_effect [OF assms(1) _ _ assms(4,5,6) m] assms(2) created_job_inv [OF assms(4), of lib env r]
  show ?thesis by metis
next
  case False
  with ServeHTTP_block [of r cfg lib "redis_Store lib rs" env s] assms(2,3) show ?thesis by auto
qed

theorem requests_keep_store_valid_witness:
  "\<exists>resp lg s'. ServeHTTP plain_lib (redis_Store plain_lib ref_store) sample_api sample_env
      (sample_req ''POST'' ''/v1/jobs/one-shot'' ''bEARER t'') ref_init = ((resp, lg), s')
    \<and> valid_store plain_lib ref_store (rdb s')"
proof -
  obtain resp lg s' where run: "ServeHTTP plain_lib (redis_Store plain_lib ref_store) sample_api sample_env
      (sample_req ''POST'' ''/v1/jobs/one-shot'' ''bEARER t'') ref_init = ((resp, lg), s')"
    by (metis prod.exhaust)
  from requests_keep_store_valid [OF ref_service ref_init_valid run _ sample_created_storable ref_init_look] run
  show ?thesis by auto
qed

end
