(* ===== verification/WorkerPool.thy ===== *)
theory WorkerPool
  imports HttpApi
begin

text \<open>
  The goroutines of the process and what they share: the workers and the dispatch queue of
  \<open>internal/executor/executor.go\<close>, the poll loop of \<open>internal/scheduler/scheduler.go\<close> and the
  shutdown sequence of \<open>cmd/tickhook/main.go\<close>, as a transition system. A step is what one
  goroutine does between two points at which another may run: a channel operation, a lock
  section, a Redis call. Of the store only the schedule is kept, as a set of ids; what an
  execution does to a job is in the theory \<open>Executor\<close>. Channels are buffers with a capacity, a
  semaphore is the number of tokens in its channel, and the per-domain semaphores are channels
  in a heap, the map holding their addresses.
\<close>

subsection \<open>State\<close>

datatype worker_pc =
    Idle
  | WantGlobal string
  | Loading string
  | NeedSem string string
  | MissedSem string string
  | WaitSem string string nat
  | Calling string string nat
  | Handling string
  | ReleaseSem nat
  | ReleaseGlobal
  | Exited

datatype sched_pc =
    SchedIdle
  | Polled "string list"
  | Dispatching string "string list"
  | SchedExited

datatype main_pc =
    AwaitSignal
  | StopSched
  | AwaitSched
  | StopExec
  | CloseQueue
  | AwaitExec
  | ShutdownHttp
  | Finished

record pool =
  schedule :: "string set"
  used_ids :: "string set"
  jobQueue :: "string list"
  queue_closed :: bool
  stop_closed :: bool
  ctx_done :: bool
  globalSem :: nat
  sem_heap :: "nat list"
  domainSems :: "string \<rightharpoonup> nat"
  workers :: "worker_pc list"
  sched :: sched_pc
  sched_stopped :: bool
  main_at :: main_pc
  panicked :: bool

definition max_inflight :: "Config \<Rightarrow> nat" where
  "max_inflight cfg = nat (sint (MaxInflight cfg))"

definition max_per_domain :: "Config \<Rightarrow> nat" where
  "max_per_domain cfg = nat (sint (MaxPerDomain cfg))"

definition batch :: "Config \<Rightarrow> nat" where
  "batch cfg = nat (sint (Batch cfg))"

text \<open>The product is Go's, on 64 bits; without a first channel there is no second.\<close>

definition queue_cap :: "Config \<Rightarrow> nat" where
  "queue_cap cfg = (if sint (MaxInflight cfg) < 0 then 0 else nat (sint (MaxInflight cfg * 2)))"

lemma double_limit:
  fixes m :: i64
  assumes "0 < sint m"
  shows "sint (m * 2) < 0 \<and> 2 ^ 62 \<le> sint m \<or> sint (m * 2) = 2 * sint m \<and> sint m < 2 ^ 62"
proof -
  have e: "m * 2 = word_of_int (2 * sint m)" by simp
  have u: "sint m < 2 ^ 63" using sint_lt [of m] by simp
  show ?thesis
  proof (cases "sint m < 2 ^ 62")
    case True
    then have "sint (word_of_int (2 * sint m) :: i64) = 2 * sint m"
      using assms by (intro sint_word_of_int_i64) simp_all
    with True e show ?thesis by metis
  next
    case False
    have "word_of_int (2 * sint m) = (word_of_int (2 * sint m - 2 ^ 64) :: i64)"
      by (simp add: word_of_int_eq_iff take_bit_eq_mod mod_diff_right_eq [symmetric])
    moreover have "sint (word_of_int (2 * sint m - 2 ^ 64) :: i64) = 2 * sint m - 2 ^ 64"
      using False u by (intro sint_word_of_int_i64) simp_all
    ultimately have "sint (m * 2) = 2 * sint m - 2 ^ 64" using e by metis
    with False u show ?thesis by simp
  qed
qed

lemma queue_cap_le: "queue_cap cfg \<le> 2 * max_inflight cfg"
proof (cases "sint (MaxInflight cfg) = 0")
  case True
  then have "MaxInflight cfg = 0" by (simp add: signed_eq_0_iff)
  then show ?thesis by (simp add: queue_cap_def)
next
  case False
  with double_limit [of "MaxInflight cfg"] show ?thesis
    by (auto simp: queue_cap_def max_inflight_def)
qed

text \<open>After \<open>NewExecutor\<close>, \<open>NewScheduler\<close> and \<open>Start\<close>: everything empty, all workers in their select.\<close>

definition started :: "Config \<Rightarrow> pool" where
  "started cfg = \<lparr>schedule = {}, used_ids = {}, jobQueue = [], queue_closed = False,
     stop_closed = False, ctx_done = False, globalSem = 0, sem_heap = [], domainSems = Map.empty,
     workers = replicate (max_inflight cfg) Idle, sched = SchedIdle, sched_stopped = False,
     main_at = AwaitSignal, panicked = False\<rparr>"

subsection \<open>Channels\<close>

text \<open>\<open>make(chan T, n)\<close>, for elements of \<open>elem\<close> bytes: the capacity, or None for a panic.\<close>

definition make_chan :: "nat \<Rightarrow> nat \<Rightarrow> i64 \<Rightarrow> nat option" where
  "make_chan room elem n =
     (if sint n < 0 \<or> room < elem * nat (sint n) then None else Some (nat (sint n)))"

record Executor =
  ex_cfg :: Config
  ex_globalSem :: nat
  ex_domainSems :: "string \<rightharpoonup> nat"
  ex_jobQueue :: nat

text \<open>The semaphores carry values of no size, the queue carries strings, two machine words each.\<close>

definition NewExecutor :: "nat \<Rightarrow> Config \<Rightarrow> Executor option" where
  "NewExecutor room cfg =
     Option.bind (make_chan room 0 (MaxInflight cfg)) (\<lambda>g.
       Option.bind (make_chan room 16 (MaxInflight cfg * 2)) (\<lambda>q.
         Some \<lparr>ex_cfg = cfg, ex_globalSem = g, ex_domainSems = Map.empty, ex_jobQueue = q\<rparr>))"

subsection \<open>Launch\<close>

text \<open>
  Not every accepted configuration gets as far as \<open>started\<close>: \<open>NewExecutor\<close> panics when it cannot make
  a channel, and the scheduler's goroutine when \<open>NewTicker\<close> gets a period that is not positive.
\<close>

definition launch :: "nat \<Rightarrow> Config \<Rightarrow> pool option" where
  "launch room cfg =
     (case NewExecutor room cfg of
        None \<Rightarrow> None
      | Some exec \<Rightarrow> if sint (PollMs cfg * 1000000) \<le> 0 then None else Some (started cfg))"

text \<open>The channels then have the capacities that the steps go by.\<close>

lemma launch_parts:
  assumes "launch room cfg = Some p0"
  shows "p0 = started cfg" "0 < sint (PollMs cfg * 1000000)" "16 * queue_cap cfg \<le> room"
    and "NewExecutor room cfg
      = Some \<lparr>ex_cfg = cfg, ex_globalSem = max_inflight cfg, ex_domainSems = domainSems p0, ex_jobQueue = queue_cap cfg\<rparr>"
  using assms
  by (auto simp: launch_def NewExecutor_def make_chan_def queue_cap_def max_inflight_def started_def
      Option.bind_eq_Some_conv split: option.splits if_splits)

lemma launch_queue:
  assumes "launch room cfg = Some p0" "0 < sint (MaxInflight cfg)"
  shows "queue_cap cfg = 2 * max_inflight cfg" "0 < queue_cap cfg"
proof -
  have "\<not> sint (MaxInflight cfg * 2) < 0"
    using assms(1) by (auto simp: launch_def NewExecutor_def make_chan_def split: option.splits)
  with double_limit [OF assms(2)] have "sint (MaxInflight cfg * 2) = 2 * sint (MaxInflight cfg)" by blast
  with assms(2) show "queue_cap cfg = 2 * max_inflight cfg" "0 < queue_cap cfg"
    by (simp_all add: queue_cap_def max_inflight_def)
qed

subsection \<open>Workers\<close>

text \<open>The branch that a worker takes where it has a choice or where the environment decides.\<close>

datatype worker_choice =
    Take
  | Quit
  | Acquire
  | LoadFails
  | Loads string
  | BadUrl
  | ReadMap
  | LockMap
  | Finish bool
  | Release

definition getDomainSemaphore_read :: "string \<Rightarrow> pool \<Rightarrow> nat option" where
  "getDomainSemaphore_read domain p = domainSems p domain"

text \<open>Under the write lock: look again, then allocate a channel and enter it into the map.\<close>

definition getDomainSemaphore_lock :: "string \<Rightarrow> pool \<Rightarrow> nat \<times> pool" where
  "getDomainSemaphore_lock domain p =
     (case domainSems p domain of
        Some sem \<Rightarrow> (sem, p)
      | None \<Rightarrow>
          let sem = length (sem_heap p)
          in (sem, p\<lparr>sem_heap := sem_heap p @ [0], domainSems := (domainSems p)(domain \<mapsto> sem)\<rparr>))"

definition reschedules :: "bool \<Rightarrow> string \<Rightarrow> pool \<Rightarrow> pool" where
  "reschedules again jobID p = (if again then p\<lparr>schedule := insert jobID (schedule p)\<rparr> else p)"

text \<open>
  One step of a worker: the loop of \<open>worker\<close>, then \<open>executeJob\<close> up to its deferred releases. The
  step \<open>Finish again\<close> is the webhook call and the outcome handler; \<open>again\<close> says whether the
  handler put the job back on the schedule.
\<close>

fun worker_step :: "Config \<Rightarrow> worker_choice \<Rightarrow> worker_pc \<Rightarrow> pool \<Rightarrow> (worker_pc \<times> pool) option" where
  "worker_step cfg c Idle p =
     (case c of
        Take \<Rightarrow>
          (case jobQueue p of
             jobID # rest \<Rightarrow> Some (WantGlobal jobID, p\<lparr>jobQueue := rest\<rparr>)
           | [] \<Rightarrow> if queue_closed p then Some (Exited, p) else None)
      | Quit \<Rightarrow> if ctx_done p \<or> stop_closed p then Some (Exited, p) else None
      | _ \<Rightarrow> None)"
| "worker_step cfg c (WantGlobal jobID) p =
     (case c of
        Acquire \<Rightarrow>
          if globalSem p < max_inflight cfg
          then Some (Loading jobID, p\<lparr>globalSem := globalSem p + 1\<rparr>) else None
      | Quit \<Rightarrow> if ctx_done p \<or> stop_closed p then Some (Idle, p) else None
      | _ \<Rightarrow> None)"
| "worker_step cfg c (Loading jobID) p =
     (case c of
        LoadFails \<Rightarrow> Some (ReleaseGlobal, p)
      | BadUrl \<Rightarrow> Some (Handling jobID, p)
      | Loads domain \<Rightarrow> Some (NeedSem jobID domain, p)
      | _ \<Rightarrow> None)"
| "worker_step cfg c (NeedSem jobID domain) p =
     (if c = ReadMap then
        (case getDomainSemaphore_read domain p of
           Some sem \<Rightarrow> Some (WaitSem jobID domain sem, p)
         | None \<Rightarrow> Some (MissedSem jobID domain, p))
      else None)"
| "worker_step cfg c (MissedSem jobID domain) p =
     (if c = LockMap then
        (let (sem, p1) = getDomainSemaphore_lock domain p in Some (WaitSem jobID domain sem, p1))
      else None)"
| "worker_step cfg c (WaitSem jobID domain sem) p =
     (case c of
        Acquire \<Rightarrow>
          if sem_heap p ! sem < max_per_domain cfg
          then Some (Calling jobID domain sem, p\<lparr>sem_heap := (sem_heap p)[sem := sem_heap p ! sem + 1]\<rparr>)
          else None
      | Quit \<Rightarrow> if ctx_done p \<or> stop_closed p then Some (ReleaseGlobal, p) else None
      | _ \<Rightarrow> None)"
| "worker_step cfg c (Calling jobID domain sem) p =
     (case c of
        Finish again \<Rightarrow> Some (ReleaseSem sem, reschedules again jobID p)
      | _ \<Rightarrow> None)"
| "worker_step cfg c (Handling jobID) p =
     (case c of
        Finish again \<Rightarrow> Some (ReleaseGlobal, reschedules again jobID p)
      | _ \<Rightarrow> None)"
| "worker_step cfg c (ReleaseSem sem) p =
     (if c = Release
      then Some (ReleaseGlobal, p\<lparr>sem_heap := (sem_heap p)[sem := sem_heap p ! sem - 1]\<rparr>) else None)"
| "worker_step cfg c ReleaseGlobal p =
     (if c = Release then Some (Idle, p\<lparr>globalSem := globalSem p - 1\<rparr>) else None)"
| "worker_step cfg c Exited p = None"

subsection \<open>Scheduler\<close>

datatype sched_choice =
    Poll "string list"
  | SchedQuit
  | Claim
  | ClaimFails bool
  | PollEnds
  | Enqueue
  | DispatchStopped

text \<open>
  One step of the scheduler: the select of \<open>Start\<close>, the query and the loop of \<open>poll\<close>, and the
  select of \<open>Dispatch\<close>. A send on the closed queue panics. \<open>ClaimFails gone\<close> is a removal that
  reports an error, with or without effect.
\<close>

fun sched_step :: "Config \<Rightarrow> sched_choice \<Rightarrow> sched_pc \<Rightarrow> pool \<Rightarrow> (sched_pc \<times> pool) option" where
  "sched_step cfg c SchedIdle p =
     (case c of
        Poll ids \<Rightarrow>
          if distinct ids \<and> set ids \<subseteq> schedule p \<and> length ids \<le> batch cfg
          then Some (Polled ids, p) else None
      | SchedQuit \<Rightarrow> if ctx_done p \<or> sched_stopped p then Some (SchedExited, p) else None
      | _ \<Rightarrow> None)"
| "sched_step cfg c (Polled []) p = (if c = PollEnds then Some (SchedIdle, p) else None)"
| "sched_step cfg c (Polled (jobID # ids)) p =
     (case c of
        Claim \<Rightarrow> Some (Dispatching jobID ids, p\<lparr>schedule := schedule p - {jobID}\<rparr>)
      | ClaimFails gone \<Rightarrow>
          Some (Polled ids, if gone then p\<lparr>schedule := schedule p - {jobID}\<rparr> else p)
      | _ \<Rightarrow> None)"
| "sched_step cfg c (Dispatching jobID ids) p =
     (case c of
        Enqueue \<Rightarrow>
          if queue_closed p then Some (Polled ids, p\<lparr>panicked := True\<rparr>)
          else if length (jobQueue p) < queue_cap cfg
            then Some (Polled ids, p\<lparr>jobQueue := jobQueue p @ [jobID]\<rparr>)
          else None
      | DispatchStopped \<Rightarrow> if stop_closed p then Some (Polled ids, p) else None
      | _ \<Rightarrow> None)"
| "sched_step cfg c SchedExited p = None"

subsection \<open>Main\<close>

text \<open>The end of \<open>run\<close>, from waiting for the signal on. Closing a closed channel panics.\<close>

fun main_step :: "main_pc \<Rightarrow> pool \<Rightarrow> (main_pc \<times> pool) option" where
  "main_step AwaitSignal p = (if ctx_done p then Some (StopSched, p) else None)"
| "main_step StopSched p =
     Some (AwaitSched, p\<lparr>panicked := panicked p \<or> sched_stopped p, sched_stopped := True\<rparr>)"
| "main_step AwaitSched p = (if sched p = SchedExited then Some (StopExec, p) else None)"
| "main_step StopExec p =
     Some (CloseQueue, p\<lparr>panicked := panicked p \<or> stop_closed p, stop_closed := True\<rparr>)"
| "main_step CloseQueue p =
     Some (AwaitExec, p\<lparr>panicked := panicked p \<or> queue_closed p, queue_closed := True\<rparr>)"
| "main_step AwaitExec p =
     (if list_all (\<lambda>pc. pc = Exited) (workers p) then Some (ShutdownHttp, p) else None)"
| "main_step ShutdownHttp p = Some (Finished, p)"
| "main_step Finished p = None"

subsection \<open>The process\<close>

text \<open>
  A step of the process. The API creates jobs, under ids never used before, and deletes jobs, until
  main has shut its server down; the signal may come at any time, and so may the server error
  after which main is told to stop.
\<close>

datatype action =
    Signal
  | ApiCreate string
  | ApiDelete string
  | Worker nat worker_choice
  | Sched sched_choice
  | Main

fun pool_step :: "Config \<Rightarrow> action \<Rightarrow> pool \<Rightarrow> pool option" where
  "pool_step cfg Signal p = Some (p\<lparr>ctx_done := True\<rparr>)"
| "pool_step cfg (ApiCreate jobID) p =
     (if main_at p = Finished \<or> jobID \<in> used_ids p then None
      else Some (p\<lparr>schedule := insert jobID (schedule p), used_ids := insert jobID (used_ids p)\<rparr>))"
| "pool_step cfg (ApiDelete jobID) p =
     (if main_at p = Finished then None else Some (p\<lparr>schedule := schedule p - {jobID}\<rparr>))"
| "pool_step cfg (Worker w c) p =
     (if w < length (workers p) then
        (case worker_step cfg c (workers p ! w) p of
           None \<Rightarrow> None
         | Some (pc, p1) \<Rightarrow> Some (p1\<lparr>workers := (workers p)[w := pc]\<rparr>))
      else None)"
| "pool_step cfg (Sched c) p =
     (case sched_step cfg c (sched p) p of
        None \<Rightarrow> None
      | Some (pc, p1) \<Rightarrow> Some (p1\<lparr>sched := pc\<rparr>))"
| "pool_step cfg Main p =
     (case main_step (main_at p) p of
        None \<Rightarrow> None
      | Some (pc, p1) \<Rightarrow> Some (p1\<lparr>main_at := pc\<rparr>))"

inductive reachable :: "Config \<Rightarrow> pool \<Rightarrow> pool \<Rightarrow> bool" for cfg p0 where
  reach_start: "reachable cfg p0 p0"
| reach_step: "reachable cfg p0 p \<Longrightarrow> pool_step cfg a p = Some p' \<Longrightarrow> reachable cfg p0 p'"

fun run_steps :: "Config \<Rightarrow> action list \<Rightarrow> pool \<Rightarrow> pool option" where
  "run_steps cfg [] p = Some p"
| "run_steps cfg (a # as) p = Option.bind (pool_step cfg a p) (run_steps cfg as)"

lemma run_steps_reachable: "reachable cfg p0 p \<Longrightarrow> run_steps cfg as p = Some p' \<Longrightarrow> reachable cfg p0 p'"
proof (induction as arbitrary: p)
  case (Cons a as)
  from Cons.prems(2) obtain p1 where "pool_step cfg a p = Some p1" "run_steps cfg as p1 = Some p'"
    by (auto simp: Option.bind_eq_Some_conv)
  with Cons.IH [OF reach_step [OF Cons.prems(1)]] show ?case by blast
qed simp

text \<open>What every step keeps holds ever after; if it holds at the start it holds always.\<close>

locale pool_stable =
  fixes cfg :: Config and I :: "pool \<Rightarrow> bool"
  assumes kept: "I p \<Longrightarrow> pool_step cfg a p = Some p' \<Longrightarrow> I p'"
begin

lemma holds_after: "reachable cfg p0 p \<Longrightarrow> I p0 \<Longrightarrow> I p"
  by (induction rule: reachable.induct) (auto intro: kept)

end

locale pool_invariant = pool_stable +
  assumes at_start: "I (started cfg)"
begin

lemma always: "reachable cfg (started cfg) p \<Longrightarrow> I p"
  using holds_after at_start by blast

end

subsection \<open>What a worker holds\<close>

fun worker_job :: "worker_pc \<Rightarrow> string option" where
  "worker_job Idle = None"
| "worker_job (WantGlobal i) = Some i"
| "worker_job (Loading i) = Some i"
| "worker_job (NeedSem i d) = Some i"
| "worker_job (MissedSem i d) = Some i"
| "worker_job (WaitSem i d sem) = Some i"
| "worker_job (Calling i d sem) = Some i"
| "worker_job (Handling i) = Some i"
| "worker_job (ReleaseSem sem) = None"
| "worker_job ReleaseGlobal = None"
| "worker_job Exited = None"

definition holds_global :: "worker_pc \<Rightarrow> bool" where
  "holds_global pc \<longleftrightarrow> (case pc of Idle \<Rightarrow> False | WantGlobal i \<Rightarrow> False | Exited \<Rightarrow> False | _ \<Rightarrow> True)"

fun holds_sem :: "nat \<Rightarrow> worker_pc \<Rightarrow> bool" where
  "holds_sem ch (Calling i d sem) = (sem = ch)"
| "holds_sem ch (ReleaseSem sem) = (sem = ch)"
| "holds_sem ch pc = False"

fun calls_domain :: "string \<Rightarrow> worker_pc \<Rightarrow> bool" where
  "calls_domain dn (Calling i d sem) = (d = dn)"
| "calls_domain dn pc = False"

text \<open>The address a worker has is that of its domain's channel.\<close>

fun address_ok :: "pool \<Rightarrow> worker_pc \<Rightarrow> bool" where
  "address_ok p (WaitSem i d sem) = (domainSems p d = Some sem)"
| "address_ok p (Calling i d sem) = (domainSems p d = Some sem)"
| "address_ok p (ReleaseSem sem) = (sem < length (sem_heap p))"
| "address_ok p pc = True"

lemma holds_global_simps [simp]:
  "\<not> holds_global Idle" "\<not> holds_global (WantGlobal i)" "\<not> holds_global Exited"
  "holds_global (Loading i)" "holds_global (NeedSem i d)" "holds_global (MissedSem i d)"
  "holds_global (WaitSem i d sem)" "holds_global (Calling i d sem)" "holds_global (Handling i)"
  "holds_global (ReleaseSem sem)" "holds_global ReleaseGlobal"
  by (simp_all add: holds_global_def)

abbreviation count_if :: "('a \<Rightarrow> bool) \<Rightarrow> 'a list \<Rightarrow> nat" where
  "count_if P xs \<equiv> length (filter P xs)"

lemma count_if_update:
  "w < length xs \<Longrightarrow>
     count_if P (xs[w := x]) + (if P (xs ! w) then 1 else 0) = count_if P xs + (if P x then 1 else 0)"
proof (induction xs arbitrary: w)
  case (Cons a xs)
  then show ?case by (cases w) auto
qed simp

lemma count_if_nth: "w < length xs \<Longrightarrow> P (xs ! w) \<Longrightarrow> 0 < count_if P xs"
  by (metis length_greater_0_conv filter_empty_conv nth_mem)

lemma count_if_mono: "(\<And>x. x \<in> set xs \<Longrightarrow> P x \<Longrightarrow> Q x) \<Longrightarrow> count_if P xs \<le> count_if Q xs"
  by (induction xs) (auto simp: le_SucI)

lemmas pool_defs = getDomainSemaphore_read_def getDomainSemaphore_lock_def reschedules_def

text \<open>The steps of one goroutine, as eliminations.\<close>

lemma worker_stepE:
  assumes "pool_step cfg (Worker w c) p = Some p'"
  obtains pc p1 where "w < length (workers p)" "worker_step cfg c (workers p ! w) p = Some (pc, p1)"
    "p' = p1\<lparr>workers := (workers p)[w := pc]\<rparr>"
  using assms by (auto split: if_splits option.splits)

lemma sched_stepE:
  assumes "pool_step cfg (Sched c) p = Some p'"
  obtains pc p1 where "sched_step cfg c (sched p) p = Some (pc, p1)" "p' = p1\<lparr>sched := pc\<rparr>"
  using assms by (auto split: option.splits)

lemma main_stepE:
  assumes "pool_step cfg Main p = Some p'"
  obtains pc p1 where "main_step (main_at p) p = Some (pc, p1)" "p' = p1\<lparr>main_at := pc\<rparr>"
  using assms by (auto split: option.splits)

lemma sched_step_frame:
  assumes "sched_step cfg c spc p = Some (pc, p1)"
  shows "workers p1 = workers p \<and> globalSem p1 = globalSem p \<and> sem_heap p1 = sem_heap p
    \<and> domainSems p1 = domainSems p \<and> used_ids p1 = used_ids p \<and> main_at p1 = main_at p
    \<and> queue_closed p1 = queue_closed p \<and> stop_closed p1 = stop_closed p \<and> ctx_done p1 = ctx_done p
    \<and> sched_stopped p1 = sched_stopped p"
  using assms
  by (cases "(cfg, c, spc, p)" rule: sched_step.cases) (auto split: sched_choice.splits if_splits)

lemma main_step_frame:
  assumes "main_step mpc p = Some (pc, p1)"
  shows "workers p1 = workers p \<and> globalSem p1 = globalSem p \<and> sem_heap p1 = sem_heap p
    \<and> domainSems p1 = domainSems p \<and> used_ids p1 = used_ids p \<and> jobQueue p1 = jobQueue p
    \<and> schedule p1 = schedule p \<and> ctx_done p1 = ctx_done p \<and> sched p1 = sched p"
  using assms by (cases mpc) (auto split: if_splits)

lemma worker_step_frame:
  assumes "worker_step cfg c wpc p = Some (pc, p1)"
  shows "workers p1 = workers p \<and> used_ids p1 = used_ids p \<and> sched p1 = sched p
    \<and> main_at p1 = main_at p \<and> queue_closed p1 = queue_closed p \<and> stop_closed p1 = stop_closed p
    \<and> ctx_done p1 = ctx_done p \<and> sched_stopped p1 = sched_stopped p \<and> panicked p1 = panicked p"
  using assms
  by (cases wpc) (auto simp: pool_defs Let_def split: worker_choice.splits if_splits option.splits list.splits)

end
