(* ===== verification/PoolSafety.thy ===== *)
theory PoolSafety
  imports WorkerPool
begin

text \<open>
  What holds in every reachable state of the process: the global and per-domain limits, one channel
  per domain, the capacity of the queue, and that a job is in at most one place. Each group of facts
  is an invariant of \<open>pool_step\<close>, proved by cases on the goroutine that moves.
\<close>

subsection \<open>Semaphores\<close>

definition sems_inv :: "Config \<Rightarrow> pool \<Rightarrow> bool" where
  "sems_inv cfg p \<longleftrightarrow>
     globalSem p = count_if holds_global (workers p) \<and> globalSem p \<le> max_inflight cfg
     \<and> (\<forall>ch<length (sem_heap p). sem_heap p ! ch = count_if (holds_sem ch) (workers p)
          \<and> sem_heap p ! ch \<le> max_per_domain cfg)
     \<and> (\<forall>d ch. domainSems p d = Some ch \<longrightarrow> ch < length (sem_heap p))
     \<and> (\<forall>d d' ch. domainSems p d = Some ch \<longrightarrow> domainSems p d' = Some ch \<longrightarrow> d = d')
     \<and> (\<forall>pc\<in>set (workers p). address_ok p pc)
     \<and> length (workers p) = max_inflight cfg"

lemma count_if_replicate_Idle: "\<not> P Idle \<Longrightarrow> count_if P (replicate n Idle) = 0"
  by (induction n) simp_all

lemma sems_inv_started: "sems_inv cfg (started cfg)"
  by (simp add: sems_inv_def started_def count_if_replicate_Idle)

lemma sems_inv_cong:
  assumes "workers p' = workers p" "globalSem p' = globalSem p" "sem_heap p' = sem_heap p"
    "domainSems p' = domainSems p"
  shows "sems_inv cfg p' = sems_inv cfg p"
proof -
  have "address_ok p' pc = address_ok p pc" for pc using assms by (cases pc) simp_all
  with assms show ?thesis by (simp add: sems_inv_def)
qed

text \<open>How one step of a worker moves the tokens.\<close>

lemma worker_step_global:
  assumes "worker_step cfg c old p = Some (pc, p1)" "holds_global old \<Longrightarrow> 0 < globalSem p"
    and "globalSem p \<le> max_inflight cfg"
  shows "globalSem p1 + (if holds_global old then 1 else 0) = globalSem p + (if holds_global pc then 1 else 0)
    \<and> globalSem p1 \<le> max_inflight cfg"
  using assms
  by (cases old) (auto simp: pool_defs Let_def split: worker_choice.splits if_splits option.splits list.splits)

lemma worker_step_map:
  assumes "worker_step cfg c old p = Some (pc, p1)"
  shows "domainSems p1 = domainSems p \<and> length (sem_heap p1) = length (sem_heap p)
    \<or> (\<exists>d. domainSems p d = None \<and> domainSems p1 = (domainSems p)(d \<mapsto> length (sem_heap p))
         \<and> sem_heap p1 = sem_heap p @ [0] \<and> (\<forall>ch. \<not> holds_sem ch old \<and> \<not> holds_sem ch pc))"
  using assms
  by (cases old) (auto simp: pool_defs Let_def split: worker_choice.splits if_splits option.splits list.splits)

lemma worker_step_sem:
  assumes "worker_step cfg c old p = Some (pc, p1)" "address_ok p old" "ch < length (sem_heap p)"
    and "holds_sem ch old \<Longrightarrow> 0 < sem_heap p ! ch" "sem_heap p ! ch \<le> max_per_domain cfg"
  shows "sem_heap p1 ! ch + (if holds_sem ch old then 1 else 0)
      = sem_heap p ! ch + (if holds_sem ch pc then 1 else 0) \<and> sem_heap p1 ! ch \<le> max_per_domain cfg"
  using assms
  by (cases old) (auto simp: pool_defs Let_def nth_list_update nth_append
      split: worker_choice.splits if_splits option.splits list.splits)

lemma worker_step_address:
  assumes "worker_step cfg c old p = Some (pc, p1)" "address_ok p old"
    and "\<And>d ch. domainSems p d = Some ch \<Longrightarrow> ch < length (sem_heap p)"
  shows "address_ok p1 pc"
  using assms
  by (cases old) (auto simp: pool_defs Let_def split: worker_choice.splits if_splits option.splits list.splits)

lemma address_ok_mono:
  assumes "address_ok p pc" "\<And>d ch. domainSems p d = Some ch \<Longrightarrow> domainSems p1 d = Some ch"
    and "length (sem_heap p) \<le> length (sem_heap p1)"
  shows "address_ok p1 pc"
  using assms by (cases pc) auto

lemma holds_sem_address:
  "address_ok p pc \<Longrightarrow> (\<And>d ch. domainSems p d = Some ch \<Longrightarrow> ch < length (sem_heap p)) \<Longrightarrow>
     holds_sem ch pc \<Longrightarrow> ch < length (sem_heap p)"
  by (cases pc) auto

lemma address_ok_workers [simp]: "address_ok (p\<lparr>workers := ws\<rparr>) pc = address_ok p pc"
  by (cases pc) simp_all

lemma no_holder:
  assumes "\<And>x. x \<in> set ws \<Longrightarrow> address_ok p x"
    and "\<And>d ch. domainSems p d = Some ch \<Longrightarrow> ch < length (sem_heap p)"
  shows "\<forall>x\<in>set ws. \<not> holds_sem (length (sem_heap p)) x"
proof (intro ballI notI)
  fix x assume x: "x \<in> set ws" "holds_sem (length (sem_heap p)) x"
  from holds_sem_address [OF assms(1) [OF x(1)] _ x(2)] assms(2) show False by blast
qed

lemma worker_heap:
  assumes "domainSems p1 = domainSems p \<and> length (sem_heap p1) = length (sem_heap p)
      \<or> (\<exists>d. domainSems p d = None \<and> domainSems p1 = (domainSems p)(d \<mapsto> length (sem_heap p))
         \<and> sem_heap p1 = sem_heap p @ [0] \<and> (\<forall>ch. \<not> holds_sem ch old \<and> \<not> holds_sem ch pc))"
    and "\<And>ch. ch < length (sem_heap p) \<Longrightarrow> sem_heap p1 ! ch = count_if (holds_sem ch) (ws[w := pc])
      \<and> sem_heap p1 ! ch \<le> m"
    and "\<forall>x\<in>set ws. \<not> holds_sem (length (sem_heap p)) x"
  shows "\<forall>ch<length (sem_heap p1). sem_heap p1 ! ch = count_if (holds_sem ch) (ws[w := pc])
      \<and> sem_heap p1 ! ch \<le> m"
  using assms(1)
proof (elim disjE exE conjE)
  fix d assume new: "sem_heap p1 = sem_heap p @ [0]" "\<forall>ch. \<not> holds_sem ch old \<and> \<not> holds_sem ch pc"
  then have "filter (holds_sem (length (sem_heap p))) (ws[w := pc]) = []"
    using assms(3) set_update_subset_insert [of ws w pc] by (auto simp: filter_empty_conv)
  moreover have "sem_heap p1 ! length (sem_heap p) = 0" using new(1) by simp
  moreover have "ch < length (sem_heap p) \<or> ch = length (sem_heap p)" if "ch < length (sem_heap p1)" for ch
    using that new(1) by auto
  ultimately show ?thesis using assms(2) by (metis le0 list.size(3))
qed (use assms(2) in metis)

lemma sems_inv_worker:
  assumes inv: "sems_inv cfg p" and w: "w < length (workers p)"
    and st: "worker_step cfg c (workers p ! w) p = Some (pc, p1)"
  shows "sems_inv cfg (p1\<lparr>workers := (workers p)[w := pc]\<rparr>)"
proof -
  let ?old = "workers p ! w" and ?ws = "(workers p)[w := pc]"
  have bound: "\<And>d ch. domainSems p d = Some ch \<Longrightarrow> ch < length (sem_heap p)"
    and old: "address_ok p ?old" and all: "\<And>x. x \<in> set (workers p) \<Longrightarrow> address_ok p x"
    and inj: "\<And>d d' ch. domainSems p d = Some ch \<Longrightarrow> domainSems p d' = Some ch \<Longrightarrow> d = d'"
    using inv w by (auto simp: sems_inv_def)
  note upd = count_if_update [OF w, of _ pc]
  have g: "globalSem p1 = count_if holds_global ?ws \<and> globalSem p1 \<le> max_inflight cfg"
    using worker_step_global [OF st] count_if_nth [OF w, of holds_global] upd [of holds_global] inv
    by (auto simp: sems_inv_def split: if_splits)
  have map: "domainSems p1 = domainSems p \<and> length (sem_heap p1) = length (sem_heap p)
    \<or> (\<exists>d. domainSems p d = None \<and> domainSems p1 = (domainSems p)(d \<mapsto> length (sem_heap p))
         \<and> sem_heap p1 = sem_heap p @ [0] \<and> (\<forall>ch. \<not> holds_sem ch ?old \<and> \<not> holds_sem ch pc))"
    by (rule worker_step_map [OF st])
  have sem: "sem_heap p1 ! ch = count_if (holds_sem ch) ?ws \<and> sem_heap p1 ! ch \<le> max_per_domain cfg"
    if ch: "ch < length (sem_heap p)" for ch
  proof -
    have e: "sem_heap p ! ch = count_if (holds_sem ch) (workers p)" "sem_heap p ! ch \<le> max_per_domain cfg"
      using inv ch unfolding sems_inv_def by blast+
    have "holds_sem ch ?old \<Longrightarrow> 0 < sem_heap p ! ch" using count_if_nth [OF w, of "holds_sem ch"] e(1) by simp
    from worker_step_sem [OF st old ch this e(2)] upd [of "holds_sem ch"] e(1) show ?thesis
      by (auto split: if_splits)
  qed
  have heap: "\<forall>ch<length (sem_heap p1). sem_heap p1 ! ch = count_if (holds_sem ch) ?ws
      \<and> sem_heap p1 ! ch \<le> max_per_domain cfg"
  proof (rule worker_heap [OF map sem])
    show "\<forall>x\<in>set (workers p). \<not> holds_sem (length (sem_heap p)) x"
      using all bound by (rule no_holder)
  qed
  have mono: "domainSems p d = Some ch \<Longrightarrow> domainSems p1 d = Some ch" for d ch using map by auto
  have len: "length (sem_heap p) \<le> length (sem_heap p1)" using map by auto
  have addr: "\<forall>x\<in>set ?ws. address_ok p1 x"
  proof
    fix x assume "x \<in> set ?ws"
    then consider "x = pc" | "x \<in> set (workers p)" using set_update_subset_insert [of "workers p" w pc] by auto
    then show "address_ok p1 x"
      by cases (simp add: worker_step_address [OF st old bound], rule address_ok_mono [OF all mono len])
  qed
  have b1: "ch < length (sem_heap p1)" if "domainSems p1 d = Some ch" for d ch
    using map that bound [of d ch] by (auto split: if_splits)
  have i1: "d = d'" if "domainSems p1 d = Some ch" "domainSems p1 d' = Some ch" for d d' ch
    using map that inj [of d ch d'] bound [of d ch] bound [of d' ch] by (auto split: if_splits)
  have l1: "length ?ws = max_inflight cfg" using inv by (simp add: sems_inv_def)
  define p' where "p' = p1\<lparr>workers := ?ws\<rparr>"
  have f: "workers p' = ?ws" "globalSem p' = globalSem p1" "sem_heap p' = sem_heap p1"
    "domainSems p' = domainSems p1" "\<And>x. address_ok p' x = address_ok p1 x"
    by (simp_all add: p'_def)
  show ?thesis
    unfolding p'_def [symmetric] sems_inv_def f using g heap addr b1 i1 l1 by blast
qed

lemma sems_inv_step:
  assumes "sems_inv cfg p" "pool_step cfg a p = Some p'"
  shows "sems_inv cfg p'"
proof (cases a)
  case (Worker w c)
  from assms(2) [unfolded Worker] obtain pc p1 where "w < length (workers p)"
    "worker_step cfg c (workers p ! w) p = Some (pc, p1)" "p' = p1\<lparr>workers := (workers p)[w := pc]\<rparr>"
    by (rule worker_stepE)
  with sems_inv_worker [OF assms(1)] show ?thesis by simp
next
  case (Sched c)
  from assms(2) [unfolded Sched] obtain pc p1 where
    "sched_step cfg c (sched p) p = Some (pc, p1)" "p' = p1\<lparr>sched := pc\<rparr>" by (rule sched_stepE)
  with sched_step_frame [of cfg c "sched p" p pc p1] assms(1) show ?thesis
    by (subst sems_inv_cong [of p' p]) simp_all
next
  case Main
  from assms(2) [unfolded Main] obtain pc p1 where
    "main_step (main_at p) p = Some (pc, p1)" "p' = p1\<lparr>main_at := pc\<rparr>" by (rule main_stepE)
  with main_step_frame [of "main_at p" p pc p1] assms(1) show ?thesis
    by (subst sems_inv_cong [of p' p]) simp_all
next
  case Signal
  with assms show ?thesis by (subst sems_inv_cong [of p' p]) auto
next
  case (ApiCreate i)
  with assms show ?thesis by (subst sems_inv_cong [of p' p]) (auto split: if_splits)
next
  case (ApiDelete i)
  with assms show ?thesis by (subst sems_inv_cong [of p' p]) (auto split: if_splits)
qed

interpretation sems: pool_invariant cfg "sems_inv cfg" for cfg
  by unfold_locales (fact sems_inv_step, fact sems_inv_started)

text \<open>The calls to one domain all hold its one channel.\<close>

lemma calls_le_limit:
  assumes "sems_inv cfg p"
  shows "count_if (calls_domain dn) (workers p) \<le> max_per_domain cfg"
proof (cases "domainSems p dn")
  case None
  then have "\<not> calls_domain dn x" if "x \<in> set (workers p)" for x
    using assms that by (cases x) (auto simp: sems_inv_def)
  then show ?thesis by simp
next
  case (Some ch)
  have "calls_domain dn x \<Longrightarrow> holds_sem ch x" if "x \<in> set (workers p)" for x
    using assms that Some by (cases x) (auto simp: sems_inv_def)
  then have "count_if (calls_domain dn) (workers p) \<le> count_if (holds_sem ch) (workers p)"
    by (rule count_if_mono)
  moreover have "ch < length (sem_heap p)" using assms Some unfolding sems_inv_def by blast
  ultimately show ?thesis using assms unfolding sems_inv_def by force
qed

subsection \<open>The places of a job\<close>

fun sched_count :: "string \<Rightarrow> sched_pc \<Rightarrow> nat" where
  "sched_count i (Polled ids) = count_list ids i"
| "sched_count i (Dispatching j ids) = (if j = i then 1 else 0) + count_list ids i"
| "sched_count i pc = 0"

text \<open>The fetched ids that are not claimed yet: these may still be on the schedule.\<close>

fun polled_count :: "string \<Rightarrow> sched_pc \<Rightarrow> nat" where
  "polled_count i (Polled ids) = count_list ids i"
| "polled_count i (Dispatching j ids) = count_list ids i"
| "polled_count i pc = 0"

definition in_flight :: "string \<Rightarrow> pool \<Rightarrow> nat" where
  "in_flight i p = count_list (jobQueue p) i + sched_count i (sched p)
     + count_if (\<lambda>pc. worker_job pc = Some i) (workers p)"

definition places_inv :: "pool \<Rightarrow> bool" where
  "places_inv p \<longleftrightarrow> (\<forall>i. in_flight i p \<le> 1
     \<and> (i \<in> schedule p \<longrightarrow> in_flight i p = polled_count i (sched p))
     \<and> (0 < in_flight i p \<or> i \<in> schedule p \<longrightarrow> i \<in> used_ids p))"

lemma places_invI:
  assumes "\<And>i. in_flight i p \<le> 1"
    and "\<And>i. i \<in> schedule p \<Longrightarrow> in_flight i p = polled_count i (sched p)"
    and "\<And>i. 0 < in_flight i p \<Longrightarrow> i \<in> used_ids p" "\<And>i. i \<in> schedule p \<Longrightarrow> i \<in> used_ids p"
  shows "places_inv p"
  using assms unfolding places_inv_def by blast

lemma places_invD:
  assumes "places_inv p"
  shows "in_flight i p \<le> 1" "i \<in> schedule p \<Longrightarrow> in_flight i p = polled_count i (sched p)"
    and "0 < in_flight i p \<Longrightarrow> i \<in> used_ids p" "i \<in> schedule p \<Longrightarrow> i \<in> used_ids p"
  using assms unfolding places_inv_def by blast+

lemma polled_le_sched: "polled_count i pc \<le> sched_count i pc"
  by (cases pc) simp_all

lemma places_inv_started: "places_inv (started cfg)"
  by (simp add: places_inv_def in_flight_def started_def count_if_replicate_Idle)

lemma places_inv_mono:
  assumes "places_inv p" "\<And>i. in_flight i p' = in_flight i p" "sched p' = sched p"
    and "schedule p' \<subseteq> schedule p" "used_ids p' = used_ids p"
  shows "places_inv p'"
  using assms unfolding places_inv_def by auto

text \<open>A worker keeps its job, drops it, takes one from the queue, or puts it back on the schedule.\<close>

lemma worker_step_job:
  assumes "worker_step cfg c old p = Some (pc, p1)"
  shows "jobQueue p1 = jobQueue p \<and> schedule p1 = schedule p
      \<and> (worker_job pc = worker_job old \<or> worker_job pc = None)
    \<or> (\<exists>j. worker_job old = None \<and> worker_job pc = Some j \<and> jobQueue p = j # jobQueue p1
         \<and> schedule p1 = schedule p)
    \<or> (\<exists>j. worker_job old = Some j \<and> worker_job pc = None \<and> jobQueue p1 = jobQueue p
         \<and> schedule p1 = insert j (schedule p))"
  using assms
  by (cases old) (auto simp: pool_defs Let_def split: worker_choice.splits if_splits option.splits list.splits)

lemma places_inv_worker:
  assumes inv: "places_inv p" and w: "w < length (workers p)"
    and st: "worker_step cfg c (workers p ! w) p = Some (pc, p1)"
  shows "places_inv (p1\<lparr>workers := (workers p)[w := pc]\<rparr>)"
proof -
  let ?p = "p1\<lparr>workers := (workers p)[w := pc]\<rparr>" and ?old = "workers p ! w"
  have f: "sched p1 = sched p" "used_ids p1 = used_ids p" using worker_step_frame [OF st] by simp_all
  note upd = count_if_update [OF w, of "\<lambda>pc. worker_job pc = Some i" pc for i]
  have "in_flight i ?p \<le> 1 \<and> (i \<in> schedule ?p \<longrightarrow> in_flight i ?p = polled_count i (sched ?p))
      \<and> (0 < in_flight i ?p \<or> i \<in> schedule ?p \<longrightarrow> i \<in> used_ids ?p)" for i
  proof -
    have old: "in_flight i p \<le> 1" "i \<in> schedule p \<Longrightarrow> in_flight i p = polled_count i (sched p)"
      "0 < in_flight i p \<or> i \<in> schedule p \<Longrightarrow> i \<in> used_ids p"
      using inv unfolding places_inv_def by blast+
    define n where "n = count_if (\<lambda>pc. worker_job pc = Some i) (workers p)"
    define n' where "n' = count_if (\<lambda>pc. worker_job pc = Some i) ((workers p)[w := pc])"
    note le = polled_le_sched [of i "sched p"] and u = upd [of i, folded n_def n'_def]
    have pos: "worker_job ?old = Some i \<Longrightarrow> 0 < n"
      using count_if_nth [OF w, of "\<lambda>pc. worker_job pc = Some i"] by (simp add: n_def)
    have fl: "in_flight i p = count_list (jobQueue p) i + sched_count i (sched p) + n"
      "in_flight i ?p = count_list (jobQueue p1) i + sched_count i (sched p) + n'"
      by (simp_all add: in_flight_def n_def n'_def f)
    from worker_step_job [OF st] show ?thesis
      unfolding fl using u old [unfolded fl] f le pos
      by (elim disjE exE conjE) (auto split: if_splits)
  qed
  then show ?thesis unfolding places_inv_def by blast
qed

lemma distinct_count_list: "distinct ids \<Longrightarrow> count_list ids i = (if i \<in> set ids then 1 else 0)"
  by (induction ids) auto

text \<open>The steps of the scheduler, as an elimination.\<close>

lemma sched_step_cases:
  assumes "sched_step cfg c spc p = Some (pc, p1)"
  obtains (poll) ids where "spc = SchedIdle" "pc = Polled ids" "distinct ids" "set ids \<subseteq> schedule p" "p1 = p"
  | (quit) "spc = SchedIdle" "pc = SchedExited" "p1 = p" "ctx_done p \<or> sched_stopped p"
  | (ends) "spc = Polled []" "pc = SchedIdle" "p1 = p"
  | (claim) j ids where "spc = Polled (j # ids)" "pc = Dispatching j ids" "p1 = p\<lparr>schedule := schedule p - {j}\<rparr>"
  | (fails) j ids gone where "spc = Polled (j # ids)" "pc = Polled ids"
      "p1 = (if gone then p\<lparr>schedule := schedule p - {j}\<rparr> else p)"
  | (enqueue) j ids where "spc = Dispatching j ids" "pc = Polled ids" "\<not> queue_closed p"
      "length (jobQueue p) < queue_cap cfg" "p1 = p\<lparr>jobQueue := jobQueue p @ [j]\<rparr>"
  | (panic) j ids where "spc = Dispatching j ids" "pc = Polled ids" "queue_closed p" "p1 = p\<lparr>panicked := True\<rparr>"
  | (stopped) j ids where "spc = Dispatching j ids" "pc = Polled ids" "stop_closed p" "p1 = p"
proof (cases spc)
  case SchedIdle
  show ?thesis
  proof (cases c)
    case (Poll ids)
    with assms SchedIdle show ?thesis by (intro that(1) [of ids]) (simp_all split: if_splits)
  next
    case SchedQuit
    with assms SchedIdle show ?thesis by (intro that(2)) (simp_all split: if_splits)
  qed (use assms SchedIdle in simp_all)
next
  case (Polled ids)
  show ?thesis
  proof (cases ids)
    case Nil
    with assms Polled show ?thesis by (intro that(3)) (simp_all split: if_splits)
  next
    case (Cons j rest)
    show ?thesis
    proof (cases c)
      case Claim
      with assms Polled Cons show ?thesis by (intro that(4) [of j rest]) simp_all
    next
      case (ClaimFails gone)
      with assms Polled Cons show ?thesis by (intro that(5) [of j rest gone]) simp_all
    qed (use assms Polled Cons in simp_all)
  qed
next
  case (Dispatching j ids)
  show ?thesis
  proof (cases c)
    case Enqueue
    show ?thesis
    proof (cases "queue_closed p")
      case True
      with assms Dispatching Enqueue show ?thesis by (intro that(7) [of j ids]) simp_all
    next
      case False
      with assms Dispatching Enqueue show ?thesis by (intro that(6) [of j ids]) (simp_all split: if_splits)
    qed
  next
    case DispatchStopped
    with assms Dispatching show ?thesis by (intro that(8) [of j ids]) (simp_all split: if_splits)
  qed (use assms Dispatching in simp_all)
next
  case SchedExited
  from assms show ?thesis unfolding SchedExited by simp
qed

lemma places_inv_sched:
  assumes inv: "places_inv p" and st: "sched_step cfg c (sched p) p = Some (pc, p1)"
  shows "places_inv (p1\<lparr>sched := pc\<rparr>)"
proof -
  define q where "q = p1\<lparr>sched := pc\<rparr>"
  have q: "schedule q = schedule p1" "sched q = pc" "used_ids q = used_ids p"
    using sched_step_frame [OF st] by (simp_all add: q_def)
  have "in_flight i q \<le> 1 \<and> (i \<in> schedule p1 \<longrightarrow> in_flight i q = polled_count i pc)
      \<and> (0 < in_flight i q \<longrightarrow> i \<in> used_ids p) \<and> (i \<in> schedule p1 \<longrightarrow> i \<in> used_ids p)" for i
  proof -
    define n where "n = count_if (\<lambda>pc. worker_job pc = Some i) (workers p)"
    have fl: "in_flight i p = count_list (jobQueue p) i + sched_count i (sched p) + n"
      "in_flight i q = count_list (jobQueue p1) i + sched_count i pc + n"
      using sched_step_frame [OF st] by (simp_all add: in_flight_def n_def q_def)
    note old = places_invD [OF inv, of i, unfolded fl]
    from st show ?thesis
    proof (cases rule: sched_step_cases)
      case (poll ids)
      then have "i \<in> set ids \<Longrightarrow> i \<in> schedule p" by blast
      with old poll distinct_count_list [OF poll(3), of i] show ?thesis unfolding fl by auto
    next
      case quit
      with old show ?thesis unfolding fl by simp
    next
      case ends
      with old show ?thesis unfolding fl by simp
    next
      case (claim j ids)
      with old show ?thesis unfolding fl by (cases "j = i") auto
    next
      case (fails j ids gone)
      with old show ?thesis unfolding fl by (cases "j = i"; cases gone) auto
    next
      case (enqueue j ids)
      with old show ?thesis unfolding fl by (cases "j = i") auto
    next
      case (panic j ids)
      with old show ?thesis unfolding fl by (cases "j = i") auto
    next
      case (stopped j ids)
      with old show ?thesis unfolding fl by (cases "j = i") auto
    qed
  qed
  then show ?thesis unfolding q_def [symmetric] by (intro places_invI) (simp_all add: q)
qed

lemma places_inv_step:
  assumes "places_inv p" "pool_step cfg a p = Some p'"
  shows "places_inv p'"
proof (cases a)
  case (Worker w c)
  from assms(2) [unfolded Worker] obtain pc p1 where "w < length (workers p)"
    "worker_step cfg c (workers p ! w) p = Some (pc, p1)" "p' = p1\<lparr>workers := (workers p)[w := pc]\<rparr>"
    by (rule worker_stepE)
  with places_inv_worker [OF assms(1)] show ?thesis by simp
next
  case (Sched c)
  from assms(2) [unfolded Sched] obtain pc p1 where
    "sched_step cfg c (sched p) p = Some (pc, p1)" "p' = p1\<lparr>sched := pc\<rparr>" by (rule sched_stepE)
  with places_inv_sched [OF assms(1)] show ?thesis by simp
next
  case Main
  from assms(2) [unfolded Main] obtain pc p1 where
    "main_step (main_at p) p = Some (pc, p1)" "p' = p1\<lparr>main_at := pc\<rparr>" by (rule main_stepE)
  with main_step_frame [of "main_at p" p pc p1] show ?thesis
    by (intro places_inv_mono [OF assms(1)]) (simp_all add: in_flight_def)
next
  case Signal
  with assms(2) show ?thesis by (intro places_inv_mono [OF assms(1)]) (auto simp: in_flight_def)
next
  case (ApiDelete i)
  with assms(2) show ?thesis
    by (intro places_inv_mono [OF assms(1)]) (auto simp: in_flight_def split: if_splits)
next
  case (ApiCreate j)
  with assms(2) have new: "j \<notin> used_ids p" "p' = p\<lparr>schedule := insert j (schedule p), used_ids := insert j (used_ids p)\<rparr>"
    by (auto split: if_splits)
  have fl: "in_flight i p' = in_flight i p" for i by (simp add: new(2) in_flight_def)
  have "\<not> 0 < in_flight j p" using places_invD(3) [OF assms(1)] new(1) by blast
  moreover have "polled_count j (sched p) \<le> in_flight j p"
    using polled_le_sched [of j "sched p"] by (simp add: in_flight_def)
  ultimately show ?thesis
    using assms(1) unfolding places_inv_def fl by (auto simp: new(2))
qed

interpretation places: pool_invariant cfg places_inv for cfg
  by unfold_locales (fact places_inv_step, fact places_inv_started)

subsection \<open>The order of the shutdown\<close>

text \<open>What main has closed, and what it has waited for, by the point it is at.\<close>

definition order_inv :: "Config \<Rightarrow> pool \<Rightarrow> bool" where
  "order_inv cfg p \<longleftrightarrow>
     \<not> panicked p \<and> length (jobQueue p) \<le> queue_cap cfg
     \<and> (main_at p \<noteq> AwaitSignal \<longrightarrow> ctx_done p)
     \<and> (sched_stopped p \<longleftrightarrow> main_at p \<notin> {AwaitSignal, StopSched})
     \<and> (stop_closed p \<longleftrightarrow> main_at p \<in> {CloseQueue, AwaitExec, ShutdownHttp, Finished})
     \<and> (queue_closed p \<longleftrightarrow> main_at p \<in> {AwaitExec, ShutdownHttp, Finished})
     \<and> (main_at p \<in> {StopExec, CloseQueue, AwaitExec, ShutdownHttp, Finished} \<longrightarrow> sched p = SchedExited)
     \<and> (main_at p \<in> {ShutdownHttp, Finished} \<longrightarrow> list_all (\<lambda>pc. pc = Exited) (workers p))"

lemma order_inv_started: "order_inv cfg (started cfg)"
  by (simp add: order_inv_def started_def)

lemma worker_step_queue:
  "worker_step cfg c old p = Some (pc, p1) \<Longrightarrow> length (jobQueue p1) \<le> length (jobQueue p) \<and> old \<noteq> Exited"
  using worker_step_job [of cfg c old p pc p1] by (cases old) auto

lemma order_inv_worker:
  assumes inv: "order_inv cfg p" and w: "w < length (workers p)"
    and st: "worker_step cfg c (workers p ! w) p = Some (pc, p1)"
  shows "order_inv cfg (p1\<lparr>workers := (workers p)[w := pc]\<rparr>)"
proof -
  have "\<not> list_all (\<lambda>pc. pc = Exited) (workers p)"
    using worker_step_queue [OF st] w by (auto simp: list_all_iff)
  then have "main_at p \<notin> {ShutdownHttp, Finished}" using inv by (auto simp: order_inv_def)
  then show ?thesis
    using inv worker_step_frame [OF st] worker_step_queue [OF st]
    unfolding order_inv_def by simp
qed

lemma order_inv_sched:
  assumes inv: "order_inv cfg p" and st: "sched_step cfg c (sched p) p = Some (pc, p1)"
  shows "order_inv cfg (p1\<lparr>sched := pc\<rparr>)"
proof -
  have "sched p \<noteq> SchedExited" using st by auto
  then have m: "main_at p \<in> {AwaitSignal, StopSched, AwaitSched}"
    using inv by (cases "main_at p") (auto simp: order_inv_def)
  from st show ?thesis
    by (cases rule: sched_step_cases) (use inv m in \<open>auto simp: order_inv_def\<close>)
qed

lemma order_inv_main:
  assumes inv: "order_inv cfg p" and st: "main_step (main_at p) p = Some (pc, p1)"
  shows "order_inv cfg (p1\<lparr>main_at := pc\<rparr>)"
  using st by (cases "main_at p") (use inv in \<open>auto simp: order_inv_def split: if_splits\<close>)

lemma order_inv_step:
  assumes "order_inv cfg p" "pool_step cfg a p = Some p'"
  shows "order_inv cfg p'"
proof (cases a)
  case (Worker w c)
  from assms(2) [unfolded Worker] obtain pc p1 where "w < length (workers p)"
    "worker_step cfg c (workers p ! w) p = Some (pc, p1)" "p' = p1\<lparr>workers := (workers p)[w := pc]\<rparr>"
    by (rule worker_stepE)
  with order_inv_worker [OF assms(1)] show ?thesis by simp
next
  case (Sched c)
  from assms(2) [unfolded Sched] obtain pc p1 where
    "sched_step cfg c (sched p) p = Some (pc, p1)" "p' = p1\<lparr>sched := pc\<rparr>" by (rule sched_stepE)
  with order_inv_sched [OF assms(1)] show ?thesis by simp
next
  case Main
  from assms(2) [unfolded Main] obtain pc p1 where
    "main_step (main_at p) p = Some (pc, p1)" "p' = p1\<lparr>main_at := pc\<rparr>" by (rule main_stepE)
  with order_inv_main [OF assms(1)] show ?thesis by simp
next
  case Signal
  with assms(2) have "p' = p\<lparr>ctx_done := True\<rparr>" by simp
  with assms(1) show ?thesis by (simp add: order_inv_def)
next
  case (ApiCreate i)
  with assms(2) have "p' = p\<lparr>schedule := insert i (schedule p), used_ids := insert i (used_ids p)\<rparr>"
    by (simp split: if_splits)
  with assms(1) show ?thesis by (simp add: order_inv_def)
next
  case (ApiDelete i)
  with assms(2) have "p' = p\<lparr>schedule := schedule p - {i}\<rparr>" by (simp split: if_splits)
  with assms(1) show ?thesis by (simp add: order_inv_def)
qed

interpretation order: pool_invariant cfg "order_inv cfg" for cfg
  by unfold_locales (fact order_inv_step, fact order_inv_started)

subsection \<open>Properties of the pool\<close>

definition calls :: "worker_pc \<Rightarrow> bool" where
  "calls pc \<longleftrightarrow> (case pc of Calling i d sem \<Rightarrow> True | _ \<Rightarrow> False)"

lemma calls_le_global: "count_if calls ws \<le> count_if holds_global ws"
  by (rule count_if_mono) (auto simp: calls_def split: worker_pc.splits)

text \<open>C15 In every reachable state, whatever the interleaving, at most \<open>max-inflight\<close> webhooks are being
  called, at most \<open>max-per-domain\<close> of them to any one domain, although the channel of a domain is
  looked up and created in two lock sections; and the queue never exceeds its buffer.\<close>

theorem concurrency_limits:
  assumes "reachable cfg (started cfg) p"
  shows "count_if calls (workers p) \<le> max_inflight cfg
    \<and> count_if (calls_domain dn) (workers p) \<le> max_per_domain cfg
    \<and> length (jobQueue p) \<le> 2 * max_inflight cfg"
proof -
  have s: "sems_inv cfg p" using sems.always [OF assms] .
  then have "count_if holds_global (workers p) \<le> max_inflight cfg" by (simp add: sems_inv_def)
  moreover have "length (jobQueue p) \<le> queue_cap cfg"
    using order.always [OF assms] by (simp add: order_inv_def)
  ultimately show ?thesis
    using calls_le_global [of "workers p"] calls_le_limit [OF s, of dn] queue_cap_le [of cfg] by simp
qed

definition tiny_cfg :: Config where
  "tiny_cfg = DefaultConfig\<lparr>RedisURL := ''redis://h:1'', AuthToken := ''t'', MaxInflight := 1, MaxPerDomain := 1\<rparr>"

lemma tiny_cfg_ok: "config_ok tiny_cfg"
  using default_config_ok by (simp add: config_ok_def tiny_cfg_def)

lemma tiny_cfg [simp]:
  "max_inflight tiny_cfg = 1" "max_per_domain tiny_cfg = 1" "queue_cap tiny_cfg = 2" "batch tiny_cfg = 200"
  by (simp_all add: tiny_cfg_def max_inflight_def max_per_domain_def queue_cap_def batch_def DefaultConfig_def)

lemma tiny_launch: "launch (2 ^ 47) tiny_cfg = Some (started tiny_cfg)"
  by (simp add: launch_def NewExecutor_def make_chan_def tiny_cfg_def DefaultConfig_def)

definition tiny_run :: "action list" where
  "tiny_run = [ApiCreate ''a'', Sched (Poll [''a'']), Sched Claim, Sched Enqueue, Sched PollEnds,
     Worker 0 Take, Worker 0 Acquire, Worker 0 (Loads ''h''), Worker 0 ReadMap, Worker 0 LockMap,
     Worker 0 Acquire]"

lemma tiny_run:
  "\<exists>p. run_steps tiny_cfg tiny_run (started tiny_cfg) = Some p \<and> workers p = [Calling ''a'' ''h'' 0]"
  by (simp add: tiny_run_def started_def pool_defs)

lemma tiny_reachable:
  "\<exists>p. reachable tiny_cfg (started tiny_cfg) p \<and> workers p = [Calling ''a'' ''h'' 0]"
  using tiny_run run_steps_reachable [OF reach_start] by blast

theorem concurrency_limits_witness:
  "\<exists>p. reachable tiny_cfg (started tiny_cfg) p \<and> count_if (calls_domain ''h'') (workers p) = 1
     \<and> count_if (calls_domain ''h'') (workers p) \<le> max_per_domain tiny_cfg"
proof -
  obtain p where p: "reachable tiny_cfg (started tiny_cfg) p" "workers p = [Calling ''a'' ''h'' 0]"
    using tiny_reachable by blast
  from concurrency_limits [OF p(1), of "''h''"] p show ?thesis by auto
qed

text \<open>C16 In every reachable state a job is in at most one place: counting its entries in the queue, in the
  hands of the scheduler and in the hands of workers gives at most one, so no job is executed
  twice at a time, and while it is on the schedule it is nowhere but in the list of a poll
  that has not claimed it yet.\<close>

theorem single_place:
  assumes "reachable cfg (started cfg) p"
  shows "in_flight i p \<le> 1 \<and> (i \<in> schedule p \<longrightarrow> i \<notin> set (jobQueue p)
    \<and> (\<forall>pc\<in>set (workers p). worker_job pc \<noteq> Some i))"
proof -
  note inv = places_invD [OF places.always [OF assms], of i]
  have "i \<notin> set (jobQueue p) \<and> (\<forall>pc\<in>set (workers p). worker_job pc \<noteq> Some i)" if "i \<in> schedule p"
  proof -
    have "count_list (jobQueue p) i = 0" "count_if (\<lambda>pc. worker_job pc = Some i) (workers p) = 0"
      using inv(2) [OF that] polled_le_sched [of i "sched p"] unfolding in_flight_def by linarith+
    then show ?thesis by (auto simp: count_list_0_iff filter_empty_conv)
  qed
  with inv(1) show ?thesis by blast
qed

theorem single_place_witness:
  "\<exists>p. reachable tiny_cfg (started tiny_cfg) p \<and> workers p = [Calling ''a'' ''h'' 0]
     \<and> in_flight ''a'' p \<le> 1"
proof -
  obtain p where p: "reachable tiny_cfg (started tiny_cfg) p" "workers p = [Calling ''a'' ''h'' 0]"
    using tiny_reachable by blast
  from single_place [OF p(1), of "''a''"] p show ?thesis by auto
qed

text \<open>C24 No goroutine panics on a channel: in every reachable state, the shutdown included, nothing has
  been sent on the closed queue and no channel closed twice; the queue is only closed once the
  scheduler has exited, and main only ends once every worker has.\<close>

theorem no_channel_panic:
  assumes "reachable cfg (started cfg) p"
  shows "\<not> panicked p \<and> (queue_closed p \<longrightarrow> sched p = SchedExited)
    \<and> (main_at p = Finished \<longrightarrow> (\<forall>pc\<in>set (workers p). pc = Exited))"
  using order.always [OF assms] by (auto simp: order_inv_def list_all_iff)

theorem no_channel_panic_witness:
  "\<exists>p. reachable tiny_cfg (started tiny_cfg) p \<and> workers p = [Calling ''a'' ''h'' 0] \<and> \<not> panicked p"
proof -
  obtain p where p: "reachable tiny_cfg (started tiny_cfg) p" "workers p = [Calling ''a'' ''h'' 0]"
    using tiny_reachable by blast
  from no_channel_panic [OF p(1)] p show ?thesis by auto
qed

end
