(* ===== verification/Shutdown.thy ===== *)
theory Shutdown
  imports PoolSafety
begin

text \<open>
  What the shutdown sequence of \<open>cmd/tickhook/main.go\<close> can do to a loaded process, for every
  accepted configuration with which the process gets started (\<open>launch\<close>): it can hang, since the workers leave on the cancelled context before the
  scheduler, which is blocked in \<open>Dispatch\<close> on a full queue that only the workers drain and that
  only the next stage of main would unblock; and when it ends it can drop jobs that were
  claimed but not executed. Both are shown by runs, built from runs of one goroutine each.
\<close>

subsection \<open>Runs of one goroutine\<close>

lemma run_steps_append:
  "run_steps cfg (as @ bs) p = Option.bind (run_steps cfg as p) (run_steps cfg bs)"
proof (induction as arbitrary: p)
  case (Cons a as)
  then show ?case by (cases "pool_step cfg a p") simp_all
qed simp

definition load :: "nat \<Rightarrow> string list" where
  "load n = map (\<lambda>k. replicate k (CHR ''x'')) [0..<n]"

lemma load [simp]: "distinct (load n)" "length (load n) = n"
  by (auto simp: load_def distinct_map intro: inj_onI dest: arg_cong [where f = length])

lemma run_creates:
  "main_at p \<noteq> Finished \<Longrightarrow> distinct ids \<Longrightarrow> set ids \<inter> used_ids p = {} \<Longrightarrow>
     run_steps cfg (map ApiCreate ids) p
       = Some (p\<lparr>schedule := schedule p \<union> set ids, used_ids := used_ids p \<union> set ids\<rparr>)"
  by (induction ids arbitrary: p) auto

text \<open>A tick that finds one due job and queues it.\<close>

definition tick :: "string \<Rightarrow> action list" where
  "tick i = [Sched (Poll [i]), Sched Claim, Sched Enqueue, Sched PollEnds]"

lemma run_tick:
  assumes "sched p = SchedIdle" "\<not> queue_closed p" "0 < batch cfg" "i \<in> schedule p"
    "length (jobQueue p) < queue_cap cfg"
  shows "run_steps cfg (tick i @ as) p
    = run_steps cfg as (p\<lparr>schedule := schedule p - {i}, jobQueue := jobQueue p @ [i]\<rparr>)"
  using assms by (cases p) (simp add: tick_def)

lemma run_ticks:
  "sched p = SchedIdle \<Longrightarrow> \<not> queue_closed p \<Longrightarrow> 0 < batch cfg \<Longrightarrow> distinct ids \<Longrightarrow> set ids \<subseteq> schedule p \<Longrightarrow>
     length (jobQueue p) + length ids \<le> queue_cap cfg \<Longrightarrow>
     run_steps cfg (concat (map tick ids)) p
       = Some (p\<lparr>schedule := schedule p - set ids, jobQueue := jobQueue p @ ids\<rparr>)"
proof (induction ids arbitrary: p)
  case (Cons i ids)
  let ?p = "p\<lparr>schedule := schedule p - {i}, jobQueue := jobQueue p @ [i]\<rparr>"
  have "run_steps cfg (concat (map tick ids)) ?p
      = Some (?p\<lparr>schedule := schedule ?p - set ids, jobQueue := jobQueue ?p @ ids\<rparr>)"
    using Cons.prems by (intro Cons.IH) auto
  then show ?case using Cons.prems by (simp add: run_tick Diff_insert2 [symmetric])
qed simp

lemma batch_positive: "Config_Validate cfg = Inr () \<Longrightarrow> 0 < batch cfg"
  by (simp add: Config_Validate_iff config_ok_def batch_def)

lemma run_quits:
  "ctx_done p \<Longrightarrow> workers p = replicate k Exited @ replicate m Idle \<Longrightarrow>
     run_steps cfg (map (\<lambda>w. Worker w Quit) [k..<k + m]) p
       = Some (p\<lparr>workers := replicate (k + m) Exited\<rparr>)"
proof (induction m arbitrary: k p)
  case (Suc m)
  have w: "(workers p)[k := Exited] = replicate (Suc k) Exited @ replicate m Idle"
    using Suc.prems(2) by (simp add: list_update_append replicate_append_same)
  have "[k..<k + Suc m] = k # [Suc k..<Suc k + m]" by (simp add: upt_rec)
  moreover have "workers p ! k = Idle" using Suc.prems(2) by (simp add: nth_append)
  moreover have "run_steps cfg (map (\<lambda>w. Worker w Quit) [Suc k..<Suc k + m]) (p\<lparr>workers := (workers p)[k := Exited]\<rparr>)
      = Some (p\<lparr>workers := replicate (Suc k + m) Exited\<rparr>)"
    using Suc.IH [of "p\<lparr>workers := (workers p)[k := Exited]\<rparr>" "Suc k"] Suc.prems(1) w by simp
  ultimately show ?case using Suc.prems by simp
qed simp

subsection \<open>The hang\<close>

text \<open>Main waits for a scheduler that waits for room in a queue that nobody drains.\<close>

definition deadlocked :: "Config \<Rightarrow> pool \<Rightarrow> bool" where
  "deadlocked cfg p \<longleftrightarrow>
     main_at p = AwaitSched \<and> (\<exists>i ids. sched p = Dispatching i ids)
     \<and> length (jobQueue p) = queue_cap cfg \<and> \<not> queue_closed p \<and> \<not> stop_closed p
     \<and> list_all (\<lambda>pc. pc = Exited) (workers p)"

lemma deadlocked_step:
  assumes "deadlocked cfg p" "pool_step cfg a p = Some p'"
  shows "deadlocked cfg p'"
proof (cases a)
  case (Worker w c)
  have "workers p ! w = Exited" if "w < length (workers p)"
    using assms(1) that by (simp add: deadlocked_def list_all_length)
  with assms(2) Worker show ?thesis by (auto split: if_splits)
next
  case (Sched c)
  from assms(1) obtain i ids where "sched p = Dispatching i ids" by (auto simp: deadlocked_def)
  with assms Sched show ?thesis
    by (cases c) (auto simp: deadlocked_def)
next
  case Main
  with assms show ?thesis by (auto simp: deadlocked_def)
qed (use assms in \<open>auto simp: deadlocked_def split: if_splits\<close>)

interpretation deadlock: pool_stable cfg "deadlocked cfg" for cfg
  by unfold_locales (fact deadlocked_step)

definition hang_run :: "Config \<Rightarrow> action list" where
  "hang_run cfg =
     (let ids = load (queue_cap cfg + 1)
      in map ApiCreate ids @ concat (map tick (butlast ids)) @ [Sched (Poll [last ids]), Sched Claim, Signal]
         @ map (\<lambda>w. Worker w Quit) [0..<0 + max_inflight cfg] @ [Main, Main])"

lemma hang_run:
  assumes "0 < batch cfg"
  shows "\<exists>p. run_steps cfg (hang_run cfg) (started cfg) = Some p \<and> deadlocked cfg p"
proof -
  define ids where "ids = load (queue_cap cfg + 1)"
  have ids: "distinct ids" "length ids = queue_cap cfg + 1" by (simp_all add: ids_def)
  then have "ids = butlast ids @ [last ids]" by (cases ids rule: rev_cases) simp_all
  then have last: "last ids \<in> set ids" "last ids \<notin> set (butlast ids)" "set (butlast ids) \<subseteq> set ids"
    "distinct (butlast ids)"
    using ids(1) by (metis distinct_append last_in_set append_is_Nil_conv not_Cons_self2,
      metis distinct_append disjoint_iff list.set_intros(1), auto dest: in_set_butlastD intro: distinct_butlast)
  define p1 where "p1 = (started cfg)\<lparr>schedule := set ids, used_ids := set ids\<rparr>"
  define p3 where "p3 = p1\<lparr>schedule := schedule p1 - set (butlast ids), jobQueue := butlast ids\<rparr>"
  define p4 where "p4 = p3\<lparr>schedule := schedule p3 - {last ids}, sched := Dispatching (last ids) [], ctx_done := True\<rparr>"
  define p5 where "p5 = p4\<lparr>workers := replicate (0 + max_inflight cfg) Exited\<rparr>"
  define p6 where "p6 = p5\<lparr>sched_stopped := True, main_at := AwaitSched\<rparr>"
  have r1: "run_steps cfg (map ApiCreate ids) (started cfg) = Some p1"
    using run_creates [of "started cfg" ids cfg] ids(1) by (simp add: started_def p1_def)
  have r3: "run_steps cfg (concat (map tick (butlast ids))) p1 = Some p3"
    using run_ticks [of p1 cfg "butlast ids"] assms ids(2) last(3,4)
    by (simp add: p3_def p1_def started_def)
  have r4: "run_steps cfg [Sched (Poll [last ids]), Sched Claim, Signal] p3 = Some p4"
    using assms last(1,2) by (simp add: p4_def p3_def p1_def started_def)
  have r5: "run_steps cfg (map (\<lambda>w. Worker w Quit) [0..<0 + max_inflight cfg]) p4 = Some p5"
    using run_quits [of p4 0 "max_inflight cfg" cfg]
    by (simp add: p5_def p4_def p3_def p1_def started_def)
  have r6: "run_steps cfg [Main, Main] p5 = Some p6"
    by (simp add: p6_def p5_def p4_def p3_def p1_def started_def)
  have "run_steps cfg (hang_run cfg) (started cfg) = Some p6"
    unfolding hang_run_def ids_def [symmetric] Let_def
    by (simp only: run_steps_append r1 r3 r4 r5 r6 Option.bind.bind_lunit)
  moreover have "deadlocked cfg p6"
    using ids(2) by (simp add: deadlocked_def p6_def p5_def p4_def p3_def p1_def started_def list_all_iff)
  ultimately show ?thesis by blast
qed

text \<open>The steps of the goroutines that main started or is, the API and the signal apart.\<close>

definition internal :: "action \<Rightarrow> bool" where
  "internal a \<longleftrightarrow> (case a of Worker w c \<Rightarrow> True | Sched c \<Rightarrow> True | Main \<Rightarrow> True | _ \<Rightarrow> False)"

text \<open>In a deadlock no goroutine of the process can move; the API still takes jobs.\<close>

lemma deadlocked_stuck:
  assumes "deadlocked cfg p"
  shows "internal a \<Longrightarrow> pool_step cfg a p = None"
    and "i \<notin> used_ids p \<Longrightarrow> pool_step cfg (ApiCreate i) p \<noteq> None"
proof -
  assume a: "internal a"
  show "pool_step cfg a p = None"
  proof (rule ccontr)
    assume "pool_step cfg a p \<noteq> None"
    then obtain p' where st: "pool_step cfg a p = Some p'" by blast
    from assms obtain j ids where s: "sched p = Dispatching j ids" by (auto simp: deadlocked_def)
    have w: "workers p ! w = Exited" if "w < length (workers p)" for w
      using assms that by (simp add: deadlocked_def list_all_length)
    show False
    proof (cases a)
      case (Worker w c)
      with st w show False by (auto split: if_splits)
    next
      case (Sched c)
      with st s assms show False by (cases c) (simp_all add: deadlocked_def)
    next
      case Main
      with st s assms show False by (simp add: deadlocked_def)
    qed (use a in \<open>simp_all add: internal_def\<close>)
  qed
qed (use assms in \<open>simp add: deadlocked_def\<close>)

text \<open>C18 Shutdown can hang, with every accepted configuration with which the process gets started: there
  is a run, one more due job than the queue holds and a signal while the workers are between
  jobs, after which, whatever happens next, main waits for the scheduler, the scheduler is
  blocked in \<open>Dispatch\<close> on the full queue, and all workers are gone. No worker, scheduler or main
  step is possible any more, neither the executor nor the HTTP server is ever stopped, and the
  API keeps accepting jobs.\<close>

theorem shutdown_can_hang:
  assumes "Config_Validate cfg = Inr ()" "launch room cfg = Some p0"
  shows "\<exists>p. reachable cfg p0 p \<and> ctx_done p \<and> workers p \<noteq> []
     \<and> (\<forall>p'. reachable cfg p p' \<longrightarrow>
          main_at p' = AwaitSched \<and> (\<exists>i ids. sched p' = Dispatching i ids)
          \<and> length (jobQueue p') = queue_cap cfg \<and> \<not> queue_closed p' \<and> \<not> stop_closed p'
          \<and> list_all (\<lambda>pc. pc = Exited) (workers p')
          \<and> (\<forall>a. internal a \<longrightarrow> pool_step cfg a p' = None)
          \<and> (\<forall>i. i \<notin> used_ids p' \<longrightarrow> pool_step cfg (ApiCreate i) p' \<noteq> None))"
proof -
  note p0 = launch_parts(1) [OF assms(2)]
  obtain p where p: "run_steps cfg (hang_run cfg) (started cfg) = Some p" "deadlocked cfg p"
    using hang_run [OF batch_positive [OF assms(1)]] by blast
  have r: "reachable cfg (started cfg) p" using run_steps_reachable [OF reach_start p(1)] .
  have w: "workers p \<noteq> []" using sems.always [OF r] assms(1)
    by (auto simp: sems_inv_def max_inflight_def Config_Validate_iff config_ok_def)
  have "ctx_done p" using order.always [OF r] p(2) by (simp add: order_inv_def deadlocked_def)
  moreover have "deadlocked cfg p'" if "reachable cfg p p'" for p' by (rule deadlock.holds_after [OF that p(2)])
  ultimately show ?thesis
    unfolding p0 using r w deadlocked_stuck [of cfg] by (intro exI [of _ p]) (auto simp: deadlocked_def)
qed

theorem shutdown_can_hang_witness:
  "\<exists>p. reachable tiny_cfg (started tiny_cfg) p \<and> workers p \<noteq> [] \<and> main_at p = AwaitSched \<and> length (jobQueue p) = 2"
proof -
  have "Config_Validate tiny_cfg = Inr ()" by (simp add: Config_Validate_iff tiny_cfg_ok)
  from shutdown_can_hang [OF this tiny_launch] obtain p where
    "reachable tiny_cfg (started tiny_cfg) p" "workers p \<noteq> []"
    "\<forall>p'. reachable tiny_cfg p p' \<longrightarrow> main_at p' = AwaitSched \<and> length (jobQueue p') = queue_cap tiny_cfg" by blast
  then show ?thesis using reach_start by fastforce
qed

subsection \<open>The end\<close>

text \<open>How far a goroutine is from its end; a queued job counts for the longest execution.\<close>

fun worker_rank :: "worker_pc \<Rightarrow> nat" where
  "worker_rank Exited = 0"
| "worker_rank Idle = 1"
| "worker_rank ReleaseGlobal = 2"
| "worker_rank (ReleaseSem sem) = 3"
| "worker_rank (Handling i) = 4"
| "worker_rank (Calling i d sem) = 5"
| "worker_rank (WaitSem i d sem) = 6"
| "worker_rank (MissedSem i d) = 7"
| "worker_rank (NeedSem i d) = 8"
| "worker_rank (Loading i) = 9"
| "worker_rank (WantGlobal i) = 10"

fun main_rank :: "main_pc \<Rightarrow> nat" where
  "main_rank Finished = 0"
| "main_rank ShutdownHttp = 1"
| "main_rank AwaitExec = 2"
| "main_rank CloseQueue = 3"
| "main_rank StopExec = 4"
| "main_rank AwaitSched = 5"
| "main_rank StopSched = 6"
| "main_rank AwaitSignal = 7"

definition drain_measure :: "pool \<Rightarrow> nat" where
  "drain_measure p = 10 * length (jobQueue p) + sum_list (map worker_rank (workers p)) + main_rank (main_at p)"

lemma sum_list_update_nat:
  "w < length xs \<Longrightarrow> sum_list (map f (xs[w := x])) + f (xs ! w) = sum_list (map f xs) + (f x :: nat)"
proof (induction xs arbitrary: w)
  case (Cons a xs)
  then show ?case by (cases w) auto
qed simp

lemma worker_step_rank:
  "worker_step cfg c old p = Some (pc, p1) \<Longrightarrow>
     10 * length (jobQueue p1) + worker_rank pc < 10 * length (jobQueue p) + worker_rank old"
  by (cases old) (auto simp: pool_defs Let_def split: worker_choice.splits if_splits option.splits list.splits)

lemma main_step_rank: "main_step mpc p = Some (pc, p1) \<Longrightarrow> main_rank pc < main_rank mpc"
  by (cases mpc) (auto split: if_splits)

lemma internal_decreases:
  assumes "sched p = SchedExited" "internal a" "pool_step cfg a p = Some p'"
  shows "drain_measure p' < drain_measure p \<and> sched p' = SchedExited"
proof (cases a)
  case (Worker w c)
  from assms(3) [unfolded Worker] obtain pc p1 where w: "w < length (workers p)"
    and st: "worker_step cfg c (workers p ! w) p = Some (pc, p1)" "p' = p1\<lparr>workers := (workers p)[w := pc]\<rparr>"
    by (rule worker_stepE)
  with worker_step_rank [OF st(1)] sum_list_update_nat [OF w, of worker_rank pc] worker_step_frame [OF st(1)]
    assms(1) show ?thesis by (simp add: drain_measure_def)
next
  case Main
  from assms(3) [unfolded Main] obtain pc p1 where
    st: "main_step (main_at p) p = Some (pc, p1)" "p' = p1\<lparr>main_at := pc\<rparr>" by (rule main_stepE)
  with main_step_rank [OF st(1)] main_step_frame [OF st(1)] assms(1) show ?thesis
    by (simp add: drain_measure_def)
qed (use assms in \<open>simp_all add: internal_def\<close>)

lemma internal_runs_short:
  "sched p = SchedExited \<Longrightarrow> list_all internal as \<Longrightarrow> run_steps cfg as p = Some p' \<Longrightarrow>
     length as + drain_measure p' \<le> drain_measure p"
proof (induction as arbitrary: p)
  case (Cons a as)
  from Cons.prems(3) obtain p1 where st: "pool_step cfg a p = Some p1" and rest: "run_steps cfg as p1 = Some p'"
    by (auto simp: Option.bind_eq_Some_conv)
  have a: "internal a" using Cons.prems(2) by simp
  from internal_decreases [OF Cons.prems(1) a st] Cons.IH [OF _ _ rest] Cons.prems(2) show ?case by simp
qed simp

lemma worker_progress:
  assumes "ctx_done p" "pc \<noteq> Exited"
  shows "\<exists>c r. worker_step cfg c pc p = Some r"
proof (cases pc)
  case Idle
  with assms show ?thesis by (intro exI [of _ Quit]) simp
next
  case (WantGlobal i)
  with assms show ?thesis by (intro exI [of _ Quit]) simp
next
  case (WaitSem i d sem)
  with assms show ?thesis by (intro exI [of _ Quit]) simp
next
  case (Loading i)
  then show ?thesis by (intro exI [of _ LoadFails]) simp
next
  case (NeedSem i d)
  then show ?thesis by (intro exI [of _ ReadMap]) (simp split: option.split)
next
  case (MissedSem i d)
  then show ?thesis by (intro exI [of _ LockMap]) (simp add: split_beta)
next
  case (Calling i d sem)
  then show ?thesis by (intro exI [of _ "Finish True"]) simp
next
  case (Handling i)
  then show ?thesis by (intro exI [of _ "Finish True"]) simp
next
  case (ReleaseSem sem)
  then show ?thesis by (intro exI [of _ Release]) simp
next
  case ReleaseGlobal
  then show ?thesis by (intro exI [of _ Release]) simp
qed (use assms in simp)

lemma shutdown_progress:
  assumes "order_inv cfg p" "ctx_done p" "sched p = SchedExited" "main_at p \<noteq> Finished"
  shows "\<exists>a p'. internal a \<and> pool_step cfg a p = Some p'"
proof (cases "list_all (\<lambda>pc. pc = Exited) (workers p)")
  case True
  then have "\<exists>r. main_step (main_at p) p = Some r" using assms by (cases "main_at p") auto
  then show ?thesis by (intro exI [of _ Main]) (auto simp: internal_def)
next
  case False
  then obtain w where w: "w < length (workers p)" "workers p ! w \<noteq> Exited" by (auto simp: list_all_length)
  from worker_progress [OF assms(2) w(2), of cfg] obtain c r where "worker_step cfg c (workers p ! w) p = Some r"
    by blast
  with w(1) show ?thesis by (intro exI [of _ "Worker w c"]) (auto simp: internal_def split: prod.split)
qed

lemma ctx_done_stays: "pool_step cfg a p = Some p' \<Longrightarrow> ctx_done p \<Longrightarrow> ctx_done p'"
proof (cases a)
  case (Worker w c)
  assume "pool_step cfg a p = Some p'" "ctx_done p"
  then show ?thesis unfolding Worker by (elim worker_stepE) (simp add: worker_step_frame)
next
  case (Sched c)
  assume "pool_step cfg a p = Some p'" "ctx_done p"
  then show ?thesis unfolding Sched by (elim sched_stepE) (simp add: sched_step_frame)
next
  case Main
  assume "pool_step cfg a p = Some p'" "ctx_done p"
  then show ?thesis unfolding Main by (elim main_stepE) (simp add: main_step_frame)
qed (auto split: if_splits)

text \<open>C25 Once the scheduler has exited, shutdown ends: from a reachable state with the context cancelled,
  workers, scheduler and main together make at most \<open>drain_measure\<close> more steps, whatever they
  choose, and until main has returned one of them can move. Nothing is stuck but by the
  scheduler.\<close>

theorem shutdown_ends_without_scheduler:
  assumes "reachable cfg (started cfg) p" "ctx_done p" "sched p = SchedExited"
    and "list_all internal as" "run_steps cfg as p = Some p'"
  shows "length as \<le> drain_measure p
    \<and> (main_at p' = Finished \<or> (\<exists>a p''. internal a \<and> pool_step cfg a p' = Some p''))"
proof
  show "length as \<le> drain_measure p" using internal_runs_short [OF assms(3-5)] by simp
  have r: "reachable cfg (started cfg) p'" using run_steps_reachable [OF assms(1,5)] .
  have "ctx_done p' \<and> sched p' = SchedExited" using assms(2-5)
  proof (induction as arbitrary: p)
    case (Cons a as)
    from Cons.prems(4) obtain p1 where st: "pool_step cfg a p = Some p1" and rest: "run_steps cfg as p1 = Some p'"
      by (auto simp: Option.bind_eq_Some_conv)
    have "ctx_done p1"
      using st Cons.prems(1) ctx_done_stays by blast
    with Cons.IH [OF _ _ _ rest] internal_decreases [OF Cons.prems(2) _ st] Cons.prems(3) show ?case by simp
  qed simp
  with shutdown_progress [OF order.always [OF r]] show "main_at p' = Finished
      \<or> (\<exists>a p''. internal a \<and> pool_step cfg a p' = Some p'')" by blast
qed

theorem shutdown_ends_without_scheduler_witness:
  "\<exists>p p'. reachable tiny_cfg (started tiny_cfg) p \<and> sched p = SchedExited \<and> workers p = [Idle]
     \<and> run_steps tiny_cfg [Worker 0 Quit, Main, Main] p = Some p' \<and> length [Worker 0 Quit, Main, Main] \<le> drain_measure p"
proof -
  define p where "p = (started tiny_cfg)\<lparr>ctx_done := True, sched := SchedExited\<rparr>"
  define p' where "p' = p\<lparr>workers := [Exited], sched_stopped := True, main_at := AwaitSched\<rparr>"
  have r: "run_steps tiny_cfg [Signal, Sched SchedQuit] (started tiny_cfg) = Some p"
    by (simp add: p_def started_def)
  have run: "run_steps tiny_cfg [Worker 0 Quit, Main, Main] p = Some p'"
    by (simp add: p_def p'_def started_def)
  have p: "ctx_done p" "sched p = SchedExited" "workers p = [Idle]"
    by (simp_all add: p_def started_def)
  have "list_all internal [Worker 0 Quit, Main, Main]" by (simp add: internal_def)
  from shutdown_ends_without_scheduler [OF run_steps_reachable [OF reach_start r] p(1,2) this run]
    run_steps_reachable [OF reach_start r] p run show ?thesis by blast
qed

subsection \<open>The loss\<close>

definition loss_run :: "Config \<Rightarrow> action list" where
  "loss_run cfg =
     map ApiCreate (load (queue_cap cfg)) @ concat (map tick (load (queue_cap cfg))) @ [Signal]
       @ map (\<lambda>w. Worker w Quit) [0..<0 + max_inflight cfg] @ [Sched SchedQuit] @ replicate 7 Main"

lemma loss_run:
  assumes "0 < batch cfg"
  shows "run_steps cfg (loss_run cfg) (started cfg)
    = Some ((started cfg)\<lparr>used_ids := set (load (queue_cap cfg)), jobQueue := load (queue_cap cfg), ctx_done := True,
        workers := replicate (max_inflight cfg) Exited, sched := SchedExited, sched_stopped := True,
        stop_closed := True, queue_closed := True, main_at := Finished\<rparr>)"
proof -
  define ids where "ids = load (queue_cap cfg)"
  have ids: "distinct ids" "length ids = queue_cap cfg" by (simp_all add: ids_def)
  define p1 where "p1 = (started cfg)\<lparr>schedule := set ids, used_ids := set ids\<rparr>"
  define p2 where "p2 = p1\<lparr>schedule := {}, jobQueue := ids\<rparr>"
  define p3 where "p3 = p2\<lparr>ctx_done := True\<rparr>"
  define p4 where "p4 = p3\<lparr>workers := replicate (0 + max_inflight cfg) Exited\<rparr>"
  define p5 where "p5 = p4\<lparr>sched := SchedExited\<rparr>"
  have r1: "run_steps cfg (map ApiCreate ids) (started cfg) = Some p1"
    using run_creates [of "started cfg" ids cfg] ids(1) by (simp add: started_def p1_def)
  have r2: "run_steps cfg (concat (map tick ids)) p1 = Some p2"
    using run_ticks [of p1 cfg ids] assms ids by (simp add: p2_def p1_def started_def)
  have r3: "run_steps cfg [Signal] p2 = Some p3" by (simp add: p3_def)
  have r4: "run_steps cfg (map (\<lambda>w. Worker w Quit) [0..<0 + max_inflight cfg]) p3 = Some p4"
    using run_quits [of p3 0 "max_inflight cfg" cfg] by (simp add: p4_def p3_def p2_def p1_def started_def)
  have r5: "run_steps cfg [Sched SchedQuit] p4 = Some p5"
    by (simp add: p5_def p4_def p3_def p2_def p1_def started_def)
  have r6: "run_steps cfg (replicate 7 Main) p5 = Some (p5\<lparr>sched_stopped := True, stop_closed := True,
      queue_closed := True, main_at := Finished\<rparr>)"
    by (simp add: numeral_eq_Suc p5_def p4_def p3_def p2_def p1_def started_def list_all_iff)
  show ?thesis
    unfolding loss_run_def ids_def [symmetric]
    by (simp only: run_steps_append r1 r2 r3 r4 r5 r6 Option.bind.bind_lunit)
      (simp add: p5_def p4_def p3_def p2_def p1_def started_def)
qed

text \<open>C19 A shutdown that runs to its end can drop jobs, with every accepted configuration with which the
  process gets started, as many as the queue holds, which is twice \<open>max-inflight\<close>: the scheduler has taken them off the schedule and queued them, the workers leave on
  the cancelled context, and main returns with the jobs neither scheduled nor executed.\<close>

theorem graceful_shutdown_loses_jobs:
  assumes "Config_Validate cfg = Inr ()" "launch room cfg = Some p0"
  shows "\<exists>p. reachable cfg p0 p \<and> main_at p = Finished
    \<and> length (jobQueue p) = queue_cap cfg \<and> queue_cap cfg = 2 * max_inflight cfg
    \<and> 0 < length (jobQueue p) \<and> distinct (jobQueue p) \<and> set (jobQueue p) \<inter> schedule p = {}
    \<and> (\<forall>a. a \<noteq> Signal \<longrightarrow> pool_step cfg a p = None)"
proof -
  from loss_run [OF batch_positive [OF assms(1)]] obtain p where
    r: "run_steps cfg (loss_run cfg) (started cfg) = Some p"
    and p: "main_at p = Finished" "jobQueue p = load (queue_cap cfg)" "schedule p = {}"
      "sched p = SchedExited" "\<forall>pc\<in>set (workers p). pc = Exited"
    by (simp add: started_def)
  have "pool_step cfg a p = None" if "a \<noteq> Signal" for a
  proof (cases a)
    case (Worker w c)
    moreover have "workers p ! w = Exited" if "w < length (workers p)" using p(5) that by simp
    ultimately show ?thesis by simp
  qed (use that p in simp_all)
  moreover have "0 < sint (MaxInflight cfg)" using assms(1) by (simp add: Config_Validate_iff config_ok_def)
  note launch_queue [OF assms(2) this]
  ultimately show ?thesis
    unfolding launch_parts(1) [OF assms(2)]
    using run_steps_reachable [OF reach_start r] p by (intro exI [of _ p]) simp
qed

theorem graceful_shutdown_loses_jobs_witness:
  "\<exists>p. reachable tiny_cfg (started tiny_cfg) p \<and> main_at p = Finished \<and> length (jobQueue p) = 2"
proof -
  have "Config_Validate tiny_cfg = Inr ()" by (simp add: Config_Validate_iff tiny_cfg_ok)
  from graceful_shutdown_loses_jobs [OF this tiny_launch] show ?thesis by auto
qed

end
