(* ===== verification/Lifecycle.thy ===== *)
theory Lifecycle
  imports PoolSafety
begin

text \<open>
  What the process promises of a job, as an abstract machine: each id is in one phase, a step moves
  one id along the arrows of the life cycle, and no more than \<open>max-inflight\<close> ids run. The
  goroutines of the theory \<open>WorkerPool\<close> refine it: whatever one of them does is a step of the machine
  or changes no phase.
\<close>

subsection \<open>The abstract machine\<close>

text \<open>
  A \<open>Due\<close> job is on the schedule, a \<open>Fetched\<close> one has been deleted under a poll that still lists
  it, a \<open>Claimed\<close> one is with the scheduler, the queue or a worker that has not called it yet, a
  \<open>Running\<close> one is being called or has its outcome handled. An \<open>Off\<close> job was used and is nowhere.
\<close>

datatype phase = Fresh | Due | Fetched | Claimed | Running | Off

inductive moves :: "phase \<Rightarrow> phase \<Rightarrow> bool" where
  created: "moves Fresh Due"
| deleted: "moves Due Off"
| deleted_under_poll: "moves Due Fetched"
| claimed: "moves Due Claimed"
| claimed_stale: "moves Fetched Claimed"
| claim_failed: "moves Fetched Off"
| begins: "moves Claimed Running"
| abandoned: "moves Claimed Off"
| rescheduled: "moves Running Due"
| ended: "moves Running Off"

inductive_simps moves_from [simp]:
  "moves Fresh y" "moves Due y" "moves Fetched y" "moves Claimed y" "moves Running y" "moves Off y"

inductive lifecycle_step :: "nat \<Rightarrow> (string \<Rightarrow> phase) \<Rightarrow> (string \<Rightarrow> phase) \<Rightarrow> bool" for n where
  move: "moves (s i) y \<Longrightarrow> card {j. (s(i := y)) j = Running} \<le> n \<Longrightarrow> lifecycle_step n s (s(i := y))"

inductive_cases lifecycle_stepE: "lifecycle_step n s s'"

lemma off_is_final: "(lifecycle_step n)\<^sup>*\<^sup>* s s' \<Longrightarrow> s i = Off \<Longrightarrow> s' i = Off"
  by (induction rule: rtranclp_induct) (auto elim!: lifecycle_stepE split: if_splits)

text \<open>A state reached by a machine that refines a step relation is reached by the relation.\<close>

locale pool_refinement =
  fixes cfg :: Config and abs :: "pool \<Rightarrow> 'a" and spec :: "'a \<Rightarrow> 'a \<Rightarrow> bool"
  assumes sim: "reachable cfg (started cfg) p \<Longrightarrow> pool_step cfg a p = Some p' \<Longrightarrow>
    abs p' = abs p \<or> spec (abs p) (abs p')"
begin

lemma runs_refined:
  assumes "reachable cfg (started cfg) p" "reachable cfg p p'"
  shows "spec\<^sup>*\<^sup>* (abs p) (abs p') \<and> reachable cfg (started cfg) p'"
  using assms(2)
proof (induction rule: reachable.induct)
  case (reach_step q a q')
  then have "reachable cfg (started cfg) q'" by (blast intro: reachable.reach_step)
  moreover have "spec\<^sup>*\<^sup>* (abs p) (abs q')"
    using reach_step sim [of q a q'] by (auto intro: rtranclp.rtrancl_into_rtrancl)
  ultimately show ?case by blast
qed (simp add: assms(1))

end

subsection \<open>The phase of a job\<close>

definition is_running :: "worker_pc \<Rightarrow> bool" where
  "is_running pc \<longleftrightarrow> (case pc of Calling i d sem \<Rightarrow> True | Handling i \<Rightarrow> True | _ \<Rightarrow> False)"

lemma is_running_simps [simp]:
  "is_running (Calling i d sem)" "is_running (Handling i)" "\<not> is_running Idle" "\<not> is_running (WantGlobal i)"
  "\<not> is_running (Loading i)" "\<not> is_running (NeedSem i d)" "\<not> is_running (MissedSem i d)"
  "\<not> is_running (WaitSem i d sem)" "\<not> is_running (ReleaseSem sem)" "\<not> is_running ReleaseGlobal" "\<not> is_running Exited"
  by (simp_all add: is_running_def)

abbreviation runs :: "string \<Rightarrow> worker_pc \<Rightarrow> bool" where
  "runs i pc \<equiv> worker_job pc = Some i \<and> is_running pc"

fun dispatching_count :: "string \<Rightarrow> sched_pc \<Rightarrow> nat" where
  "dispatching_count i (Dispatching j ids) = (if j = i then 1 else 0)"
| "dispatching_count i pc = 0"

definition hold_count :: "string \<Rightarrow> pool \<Rightarrow> nat" where
  "hold_count i p = count_list (jobQueue p) i + dispatching_count i (sched p)
     + count_if (\<lambda>pc. worker_job pc = Some i) (workers p)"

definition phase_at :: "nat \<Rightarrow> nat \<Rightarrow> nat \<Rightarrow> bool \<Rightarrow> bool \<Rightarrow> phase" where
  "phase_at r h f s u =
     (if 0 < r then Running else if 0 < h then Claimed else if s then Due
      else if 0 < f then Fetched else if u then Off else Fresh)"

definition phases :: "pool \<Rightarrow> string \<Rightarrow> phase" where
  "phases p i = phase_at (count_if (runs i) (workers p)) (hold_count i p) (polled_count i (sched p))
     (i \<in> schedule p) (i \<in> used_ids p)"

lemma sched_count_split: "sched_count i pc = dispatching_count i pc + polled_count i pc"
  by (cases pc) simp_all

lemma in_flight_split: "in_flight i p = hold_count i p + polled_count i (sched p)"
  by (simp add: in_flight_def hold_count_def sched_count_split)

lemma phases_started: "phases (started cfg) = (\<lambda>_. Fresh)"
  by (rule ext) (simp add: phases_def phase_at_def hold_count_def started_def)

text \<open>What the invariant says of the phases: a job that is held is nowhere else.\<close>

lemma placesD:
  assumes "places_inv p"
  shows "hold_count i p + polled_count i (sched p) \<le> 1" "i \<in> schedule p \<Longrightarrow> hold_count i p = 0"
    and "0 < hold_count i p \<Longrightarrow> i \<in> used_ids p" "0 < polled_count i (sched p) \<Longrightarrow> i \<in> used_ids p"
    and "i \<in> schedule p \<Longrightarrow> i \<in> used_ids p"
  using places_invD [OF assms, of i] by (simp_all add: in_flight_split)

lemma runs_le_hold_count: "count_if (runs i) (workers p) \<le> hold_count i p"
proof -
  have "count_if (runs i) (workers p) \<le> count_if (\<lambda>pc. worker_job pc = Some i) (workers p)"
    by (rule count_if_mono) simp
  then show ?thesis by (simp add: hold_count_def)
qed

subsection \<open>No more run than allowed\<close>

lemma card_running: "card {j. phases p j = Running} \<le> count_if holds_global (workers p)"
proof -
  let ?R = "filter is_running (workers p)"
  have "{j. phases p j = Running} \<subseteq> (\<lambda>pc. the (worker_job pc)) ` set ?R"
  proof
    fix j assume "j \<in> {j. phases p j = Running}"
    then have "0 < count_if (runs j) (workers p)"
      by (simp add: phases_def phase_at_def split: if_splits)
    then obtain pc where "pc \<in> set (workers p)" "runs j pc" by (auto simp: filter_empty_conv)
    then show "j \<in> (\<lambda>pc. the (worker_job pc)) ` set ?R" by force
  qed
  then have "card {j. phases p j = Running} \<le> card ((\<lambda>pc. the (worker_job pc)) ` set ?R)"
    by (intro card_mono) simp_all
  also have "\<dots> \<le> card (set ?R)" by (intro card_image_le) simp
  also have "\<dots> \<le> length ?R" by (rule card_length)
  also have "\<dots> \<le> count_if holds_global (workers p)"
    by (rule count_if_mono) (auto simp: is_running_def split: worker_pc.splits)
  finally show ?thesis .
qed

subsection \<open>The simulation\<close>

text \<open>The steps of a worker, by what they do to the job it has.\<close>

lemma worker_step_place:
  assumes "worker_step cfg c old p = Some (pc, p1)"
  obtains (same) "worker_job pc = worker_job old" "is_running pc = is_running old" "jobQueue p1 = jobQueue p"
      "schedule p1 = schedule p"
  | (takes) j where "worker_job old = None" "\<not> is_running old" "worker_job pc = Some j" "\<not> is_running pc"
      "jobQueue p = j # jobQueue p1" "schedule p1 = schedule p"
  | (begins) j where "worker_job old = Some j" "\<not> is_running old" "worker_job pc = Some j" "is_running pc"
      "jobQueue p1 = jobQueue p" "schedule p1 = schedule p"
  | (drops) j where "worker_job old = Some j" "\<not> is_running old" "worker_job pc = None" "\<not> is_running pc"
      "jobQueue p1 = jobQueue p" "schedule p1 = schedule p"
  | (ends) j again where "worker_job old = Some j" "is_running old" "worker_job pc = None" "\<not> is_running pc"
      "jobQueue p1 = jobQueue p" "schedule p1 = (if again then insert j (schedule p) else schedule p)"
proof (cases old)
  case Idle
  show ?thesis
  proof (cases c)
    case Take
    show ?thesis
    proof (cases "jobQueue p")
      case Nil
      with assms Idle Take show ?thesis by (intro same) (auto split: if_splits)
    next
      case (Cons j rest)
      with assms Idle Take show ?thesis by (intro takes [of j]) auto
    qed
  next
    case Quit
    with assms Idle show ?thesis by (intro same) (auto split: if_splits)
  qed (use assms Idle in simp_all)
next
  case (WantGlobal j)
  show ?thesis
  proof (cases c)
    case Quit
    with assms WantGlobal show ?thesis by (intro drops [of j]) (auto split: if_splits)
  next
    case Acquire
    with assms WantGlobal show ?thesis by (intro same) (auto split: if_splits)
  qed (use assms WantGlobal in simp_all)
next
  case (Loading j)
  show ?thesis
  proof (cases c)
    case LoadFails
    with assms Loading show ?thesis by (intro drops [of j]) auto
  next
    case BadUrl
    with assms Loading show ?thesis by (intro begins [of j]) auto
  next
    case (Loads d)
    with assms Loading show ?thesis by (intro same) auto
  qed (use assms Loading in simp_all)
next
  case (NeedSem j d)
  with assms show ?thesis by (intro same) (auto split: if_splits option.splits)
next
  case (MissedSem j d)
  with assms show ?thesis by (intro same) (auto simp: pool_defs Let_def split: if_splits option.splits)
next
  case (WaitSem j d sem)
  show ?thesis
  proof (cases c)
    case Quit
    with assms WaitSem show ?thesis by (intro drops [of j]) (auto split: if_splits)
  next
    case Acquire
    with assms WaitSem show ?thesis by (intro begins [of j]) (auto split: if_splits)
  qed (use assms WaitSem in simp_all)
next
  case (Calling j d sem)
  show ?thesis
  proof (cases c)
    case (Finish again)
    with assms Calling show ?thesis by (intro ends [of j again]) (auto simp: reschedules_def)
  qed (use assms Calling in simp_all)
next
  case (Handling j)
  show ?thesis
  proof (cases c)
    case (Finish again)
    with assms Handling show ?thesis by (intro ends [of j again]) (auto simp: reschedules_def)
  qed (use assms Handling in simp_all)
next
  case (ReleaseSem sem)
  with assms show ?thesis by (intro same) (auto split: if_splits)
next
  case ReleaseGlobal
  with assms show ?thesis by (intro same) (auto split: if_splits)
qed (use assms in simp)

text \<open>What one id sees of a step of a worker: its counts before and after.\<close>

lemma worker_counts:
  assumes w: "w < length (workers p)" and st: "worker_step cfg c (workers p ! w) p = Some (pc, p1)"
    and q: "q = p1\<lparr>workers := (workers p)[w := pc]\<rparr>"
  shows "count_if (runs i) (workers q) + (if runs i (workers p ! w) then 1 else 0)
      = count_if (runs i) (workers p) + (if runs i pc then 1 else 0)"
    and "hold_count i q + count_list (jobQueue p) i + (if worker_job (workers p ! w) = Some i then 1 else 0)
      = hold_count i p + count_list (jobQueue p1) i + (if worker_job pc = Some i then 1 else 0)"
    and "worker_job (workers p ! w) = Some i \<Longrightarrow> 0 < hold_count i p"
    and "runs i (workers p ! w) \<Longrightarrow> 0 < count_if (runs i) (workers p)"
    and "count_list (jobQueue p) i \<le> hold_count i p"
proof -
  have f: "sched q = sched p" "jobQueue q = jobQueue p1" "workers q = (workers p)[w := pc]"
    using worker_step_frame [OF st] by (simp_all add: q)
  show "count_if (runs i) (workers q) + (if runs i (workers p ! w) then 1 else 0)
      = count_if (runs i) (workers p) + (if runs i pc then 1 else 0)"
    unfolding f by (rule count_if_update [OF w])
  show "hold_count i q + count_list (jobQueue p) i + (if worker_job (workers p ! w) = Some i then 1 else 0)
      = hold_count i p + count_list (jobQueue p1) i + (if worker_job pc = Some i then 1 else 0)"
    unfolding hold_count_def f using count_if_update [OF w, of "\<lambda>pc. worker_job pc = Some i" pc] by linarith
  show "worker_job (workers p ! w) = Some i \<Longrightarrow> 0 < hold_count i p"
    using count_if_nth [OF w, of "\<lambda>pc. worker_job pc = Some i"] by (simp add: hold_count_def)
  show "runs i (workers p ! w) \<Longrightarrow> 0 < count_if (runs i) (workers p)"
    using count_if_nth [OF w, of "runs i"] by simp
  show "count_list (jobQueue p) i \<le> hold_count i p" by (simp add: hold_count_def)
qed

lemma worker_view:
  assumes "worker_step cfg c (workers p ! w) p = Some (pc, p1)" "q = p1\<lparr>workers := (workers p)[w := pc]\<rparr>"
  shows "sched q = sched p" "used_ids q = used_ids p" "schedule q = schedule p1" "jobQueue q = jobQueue p1"
  using worker_step_frame [OF assms(1)] assms(2) by simp_all

text \<open>A step concerns one job: the others keep their phase, and its own moves along an arrow.\<close>

definition one_moves :: "pool \<Rightarrow> pool \<Rightarrow> bool" where
  "one_moves p q \<longleftrightarrow> (\<exists>j. \<forall>i. phases q i = phases p i \<or> i = j \<and> moves (phases p i) (phases q i))"

lemma one_movesI:
  "(\<And>i. phases q i = phases p i \<or> i = j \<and> moves (phases p i) (phases q i)) \<Longrightarrow> one_moves p q"
  unfolding one_moves_def by blast

lemma one_moves_worker:
  assumes inv: "places_inv p" and w: "w < length (workers p)"
    and st: "worker_step cfg c (workers p ! w) p = Some (pc, p1)"
    and q: "q = p1\<lparr>workers := (workers p)[w := pc]\<rparr>"
  shows "one_moves p q"
proof -
  note cnt = worker_counts [OF w st q] and f = worker_view [OF st q] and old = placesD [OF inv] and le = runs_le_hold_count [of _ p]
  show ?thesis
    using st
  proof (cases rule: worker_step_place)
    case same
    show ?thesis
    proof (rule one_movesI)
      fix i show "phases q i = phases p i \<or> i = undefined \<and> moves (phases p i) (phases q i)"
        using cnt [of i] same by (simp add: phases_def f)
    qed
  next
    case (takes j)
    show ?thesis
    proof (rule one_movesI)
      fix i show "phases q i = phases p i \<or> i = j \<and> moves (phases p i) (phases q i)"
        using cnt [of i] takes by (cases "i = j") (simp_all add: phases_def f)
    qed
  next
    case (begins j)
    show ?thesis
    proof (rule one_movesI)
      fix i show "phases q i = phases p i \<or> i = j \<and> moves (phases p i) (phases q i)"
        using cnt [of i] begins old [of i] by (cases "i = j") (auto simp: phases_def phase_at_def f)
    qed
  next
    case (drops j)
    show ?thesis
    proof (rule one_movesI)
      fix i show "phases q i = phases p i \<or> i = j \<and> moves (phases p i) (phases q i)"
        using cnt [of i] drops old [of i] le [of i]
        by (cases "i = j") (auto simp: phases_def phase_at_def f)
    qed
  next
    case (ends j again)
    show ?thesis
    proof (rule one_movesI)
      fix i show "phases q i = phases p i \<or> i = j \<and> moves (phases p i) (phases q i)"
        using cnt [of i] ends old [of i] le [of i]
        by (cases "i = j"; cases again) (auto simp: phases_def phase_at_def f)
    qed
  qed
qed

lemma one_moves_sched:
  assumes inv: "places_inv p" and st: "sched_step cfg c (sched p) p = Some (pc, p1)"
    and q: "q = p1\<lparr>sched := pc\<rparr>"
  shows "one_moves p q"
proof -
  have f: "workers q = workers p" "used_ids q = used_ids p" "sched q = pc" "schedule q = schedule p1"
    "jobQueue q = jobQueue p1"
    using sched_step_frame [OF st] by (simp_all add: q)
  note old = placesD [OF inv] and le = runs_le_hold_count [of _ p]
  show ?thesis
    using st
  proof (cases rule: sched_step_cases)
    case (poll ids)
    show ?thesis
    proof (rule one_movesI)
      fix i show "phases q i = phases p i \<or> i = undefined \<and> moves (phases p i) (phases q i)"
        using poll count_list_0_iff [of ids i] by (auto simp: phases_def hold_count_def f phase_at_def)
    qed
  next
    case quit
    show ?thesis
    proof (rule one_movesI)
      fix i show "phases q i = phases p i \<or> i = undefined \<and> moves (phases p i) (phases q i)"
        using quit by (simp add: phases_def hold_count_def f)
    qed
  next
    case ends
    show ?thesis
    proof (rule one_movesI)
      fix i show "phases q i = phases p i \<or> i = undefined \<and> moves (phases p i) (phases q i)"
        using ends by (simp add: phases_def hold_count_def f)
    qed
  next
    case (claim j ids)
    show ?thesis
    proof (rule one_movesI)
      fix i show "phases q i = phases p i \<or> i = j \<and> moves (phases p i) (phases q i)"
        using claim old [of i] le [of i]
        by (cases "i = j") (auto simp: phases_def hold_count_def f phase_at_def)
    qed
  next
    case (fails j ids gone)
    show ?thesis
    proof (rule one_movesI)
      fix i show "phases q i = phases p i \<or> i = j \<and> moves (phases p i) (phases q i)"
        using fails old [of i] le [of i]
        by (cases "i = j"; cases gone) (auto simp: phases_def hold_count_def f phase_at_def)
    qed
  next
    case (enqueue j ids)
    show ?thesis
    proof (rule one_movesI)
      fix i show "phases q i = phases p i \<or> i = j \<and> moves (phases p i) (phases q i)"
        using enqueue by (cases "i = j") (auto simp: phases_def hold_count_def f phase_at_def)
    qed
  next
    case (panic j ids)
    show ?thesis
    proof (rule one_movesI)
      fix i show "phases q i = phases p i \<or> i = j \<and> moves (phases p i) (phases q i)"
        using panic old [of i] le [of i]
        by (cases "i = j") (auto simp: phases_def hold_count_def f phase_at_def)
    qed
  next
    case (stopped j ids)
    show ?thesis
    proof (rule one_movesI)
      fix i show "phases q i = phases p i \<or> i = j \<and> moves (phases p i) (phases q i)"
        using stopped old [of i] le [of i]
        by (cases "i = j") (auto simp: phases_def hold_count_def f phase_at_def)
    qed
  qed
qed

lemma one_moves_step:
  assumes inv: "places_inv p" and st: "pool_step cfg a p = Some q"
  shows "one_moves p q"
proof (cases a)
  case (Worker w c)
  from st [unfolded Worker] show ?thesis by (elim worker_stepE) (rule one_moves_worker [OF inv])
next
  case (Sched c)
  from st [unfolded Sched] show ?thesis by (elim sched_stepE) (rule one_moves_sched [OF inv])
next
  case Main
  from st [unfolded Main] have "phases q i = phases p i" for i
    by (elim main_stepE) (auto dest!: main_step_frame simp: phases_def hold_count_def)
  then show ?thesis by (simp add: one_moves_def)
next
  case Signal
  with st show ?thesis by (auto simp: one_moves_def phases_def hold_count_def)
next
  case (ApiCreate j)
  with st have new: "j \<notin> used_ids p" "q = p\<lparr>schedule := insert j (schedule p), used_ids := insert j (used_ids p)\<rparr>"
    by (auto split: if_splits)
  show ?thesis
  proof (rule one_movesI)
    fix i show "phases q i = phases p i \<or> i = j \<and> moves (phases p i) (phases q i)"
      using placesD [OF inv, of i] runs_le_hold_count [of i p] new
      by (cases "i = j") (auto simp: phases_def hold_count_def phase_at_def)
  qed
next
  case (ApiDelete j)
  with st have new: "q = p\<lparr>schedule := schedule p - {j}\<rparr>" by (auto split: if_splits)
  show ?thesis
  proof (rule one_movesI)
    fix i show "phases q i = phases p i \<or> i = j \<and> moves (phases p i) (phases q i)"
      using placesD [OF inv, of i] runs_le_hold_count [of i p] new
      by (cases "i = j") (auto simp: phases_def hold_count_def phase_at_def)
  qed
qed

lemma step_refines:
  assumes r: "reachable cfg (started cfg) p" and st: "pool_step cfg a p = Some p'"
  shows "phases p' = phases p \<or> lifecycle_step (max_inflight cfg) (phases p) (phases p')"
proof -
  from one_moves_step [OF places.always [OF r] st] obtain j where
    j: "\<forall>i. phases p' i = phases p i \<or> i = j \<and> moves (phases p i) (phases p' i)"
    unfolding one_moves_def by blast
  then have upd: "phases p' = (phases p)(j := phases p' j)" by (intro ext) auto
  have "count_if holds_global (workers p') \<le> max_inflight cfg"
    using sems.always [OF reach_step [OF r st]] by (simp add: sems_inv_def)
  then have "card {i. phases p' i = Running} \<le> max_inflight cfg" using card_running [of p'] by linarith
  then have "lifecycle_step (max_inflight cfg) (phases p) ((phases p)(j := phases p' j))"
    if "moves (phases p j) (phases p' j)"
    using that by (intro lifecycle_step.move) (simp_all flip: upd)
  then have "lifecycle_step (max_inflight cfg) (phases p) (phases p')" if "moves (phases p j) (phases p' j)"
    using that by (simp flip: upd)
  moreover have "phases p' = phases p" if "phases p' j = phases p j"
    by (subst upd) (simp add: that)
  ultimately show ?thesis using j by blast
qed

interpretation lifecycle: pool_refinement cfg phases "lifecycle_step (max_inflight cfg)" for cfg
  by unfold_locales (fact step_refines)

subsection \<open>Properties of the life cycle\<close>

text \<open>C17 The goroutines refine the life cycle: the process starts with every id fresh, and any step of it,
  shutdown included, changes the phase of no job or moves one job along an arrow of the life
  cycle, with at most \<open>max-inflight\<close> jobs running after it.\<close>

theorem pool_refines_lifecycle:
  assumes "reachable cfg (started cfg) p" "pool_step cfg a p = Some p'"
  shows "phases (started cfg) = (\<lambda>_. Fresh)
    \<and> (phases p' = phases p \<or> lifecycle_step (max_inflight cfg) (phases p) (phases p'))"
  using step_refines [OF assms] phases_started by blast

theorem pool_refines_lifecycle_witness:
  "\<exists>p p'. reachable tiny_cfg (started tiny_cfg) p \<and> pool_step tiny_cfg (Worker 0 (Finish True)) p = Some p'
     \<and> phases p ''a'' = Running \<and> phases p' ''a'' = Due
     \<and> lifecycle_step 1 (phases p) (phases p')"
proof -
  obtain p where p: "run_steps tiny_cfg tiny_run (started tiny_cfg) = Some p" "workers p = [Calling ''a'' ''h'' 0]"
    using tiny_run by blast
  have r: "reachable tiny_cfg (started tiny_cfg) p" using run_steps_reachable [OF reach_start p(1)] .
  define p' where "p' = p\<lparr>schedule := insert ''a'' (schedule p), workers := [ReleaseSem 0]\<rparr>"
  have st: "pool_step tiny_cfg (Worker 0 (Finish True)) p = Some p'"
    using p(2) by (simp add: p'_def reschedules_def)
  have run: "phases p ''a'' = Running" using p(2) by (simp add: phases_def phase_at_def)
  have "hold_count ''a'' p' = 0 \<and> ''a'' \<in> schedule p'"
    using placesD(1) [OF places.always [OF r], of "''a''"] p(2) by (simp add: hold_count_def p'_def)
  then have due: "phases p' ''a'' = Due" by (simp add: phases_def phase_at_def p'_def)
  from pool_refines_lifecycle [OF r st] run due have "lifecycle_step 1 (phases p) (phases p')" by auto
  with r st run due show ?thesis by blast
qed

text \<open>C26 A job that has fallen off stays off: once an id that was used is neither on the schedule nor with
  the scheduler, the queue or a worker, because it was deleted, ended or dropped, no interleaving
  schedules, dispatches or calls it again.\<close>

theorem dropped_job_stays_dropped:
  assumes "reachable cfg (started cfg) p" "phases p i = Off" "reachable cfg p p'"
  shows "i \<notin> schedule p' \<and> in_flight i p' = 0"
proof -
  have "phases p' i = Off" using lifecycle.runs_refined [OF assms(1,3)] off_is_final assms(2) by blast
  then show ?thesis by (auto simp: phases_def phase_at_def in_flight_split split: if_splits)
qed

theorem dropped_job_stays_dropped_witness:
  "\<exists>p. reachable tiny_cfg (started tiny_cfg) p \<and> ''a'' \<in> used_ids p \<and> in_flight ''a'' p = 0"
proof -
  define p where "p = (started tiny_cfg)\<lparr>used_ids := {''a''}\<rparr>"
  have "run_steps tiny_cfg [ApiCreate ''a'', ApiDelete ''a''] (started tiny_cfg) = Some p"
    by (simp add: p_def started_def)
  then have r: "reachable tiny_cfg (started tiny_cfg) p" by (rule run_steps_reachable [OF reach_start])
  have "phases p ''a'' = Off" by (simp add: phases_def phase_at_def hold_count_def p_def started_def)
  from dropped_job_stays_dropped [OF r this reach_start] r show ?thesis by (auto simp: p_def)
qed

end
