(* ===== verification/TickMain.thy ===== *)
theory TickMain
  imports Shutdown Lifecycle
begin

text \<open>
  The start of \<open>run\<close> in \<open>cmd/tickhook/main.go\<close>, up to the point where the goroutines run (the
  state \<open>started\<close> of the theory \<open>WorkerPool\<close>; its end is \<open>main_step\<close> there), with the constructors
  that it calls: \<open>NewRedisStore\<close>, and \<open>NewExecutor\<close> of \<open>WorkerPool\<close>. What \<open>ParseURL\<close> and \<open>NewClient\<close>
  of go-redis return is a parameter, and so is the room that the Go runtime allows for the buffer
  of a channel.
\<close>

datatype slog_level = LevelDebug | LevelInfo | LevelWarn | LevelError

definition parseLogLevel :: "string \<Rightarrow> slog_level" where
  "parseLogLevel level =
     (if level = ''debug'' then LevelDebug
      else if level = ''info'' then LevelInfo
      else if level = ''warn'' then LevelWarn
      else if level = ''error'' then LevelError
      else LevelInfo)"

record ('o, 's) go_redis =
  redis_ParseURL :: "string \<Rightarrow> string + 'o"
  redis_NewClient :: "'o \<Rightarrow> 's redis_client"

definition NewRedisStore :: "('o, 's) go_redis \<Rightarrow> string \<Rightarrow> string \<Rightarrow> string + 's RedisStore" where
  "NewRedisStore lib redisURL ns =
     (case redis_ParseURL lib redisURL of
        Inl err \<Rightarrow> Inl (''invalid redis URL: '' @ err)
      | Inr opts \<Rightarrow> Inr \<lparr>client = redis_NewClient lib opts, namespace = ns\<rparr>)"

subsection \<open>Start\<close>

datatype exit_reason =
    ConfigRejected config_error
  | RedisUrlRejected string
  | PingFailed store_error

text \<open>How the start ends: a return of \<open>run\<close>, with what the deferred \<open>Close\<close> has done, a panic, or the
  process with its parts.\<close>

datatype 's startup =
    Returns int exit_reason bool
  | StartPanics
  | Serves slog_level "'s RedisStore" Executor

definition run_start ::
    "('o, 's) go_redis \<Rightarrow> nat \<Rightarrow> flag list \<Rightarrow> 's \<Rightarrow> 's startup \<times> 's" where
  "run_start lib room flags s =
     (case Parse_config flags of
        Inl err \<Rightarrow> (Returns 1 (ConfigRejected err) False, s)
      | Inr cfg \<Rightarrow>
          (case NewRedisStore lib (RedisURL cfg) (Namespace cfg) of
             Inl err \<Rightarrow> (Returns 1 (RedisUrlRejected err) False, s)
           | Inr redisStore \<Rightarrow>
               (case RedisStore_Ping redisStore s of
                  (Some err, s1) \<Rightarrow> (Returns 1 (PingFailed err) True, s1)
                | (None, s1) \<Rightarrow>
                    (case NewExecutor room cfg of
                       None \<Rightarrow> (StartPanics, s1)
                     | Some exec \<Rightarrow> (Serves (parseLogLevel (LogLevel cfg)) redisStore exec, s1)))))"

lemma parsed_config_ok: "Parse_config flags = Inr cfg \<Longrightarrow> config_ok cfg"
  by (auto simp: Parse_config_def Let_def sbind_eq_Inr_iff Config_Validate_iff)

text \<open>The limits that the executor works with are those of the configuration, not truncated: for an
  accepted configuration \<open>NewExecutor\<close> panics exactly when the runtime has no room for twice
  \<open>max-inflight\<close> strings, which covers every value whose double overflows 64 bits.\<close>

lemma executor_room:
  assumes "Config_Validate cfg = Inr ()" "room < 2 ^ 63"
  shows "(NewExecutor room cfg = None \<longleftrightarrow> room < 32 * max_inflight cfg)
    \<and> (\<forall>exec. NewExecutor room cfg = Some exec \<longrightarrow>
         ex_globalSem exec = max_inflight cfg \<and> ex_jobQueue exec = queue_cap cfg
         \<and> queue_cap cfg = 2 * max_inflight cfg \<and> ex_domainSems exec = domainSems (started cfg))"
proof -
  define n where "n = nat (sint (MaxInflight cfg))"
  have pos: "0 < sint (MaxInflight cfg)" using assms(1) by (simp add: Config_Validate_iff config_ok_def)
  then have n: "sint (MaxInflight cfg) = int n" "0 < n" by (simp_all add: n_def)
  have q: "max_inflight cfg = n" by (simp add: max_inflight_def n_def)
  from double_limit [OF pos] show ?thesis
  proof (elim disjE conjE)
    assume "sint (MaxInflight cfg * 2) < 0" "2 ^ 62 \<le> sint (MaxInflight cfg)"
    then show ?thesis using n assms(2) by (simp add: NewExecutor_def make_chan_def q)
  next
    assume "sint (MaxInflight cfg * 2) = 2 * sint (MaxInflight cfg)"
    then have "sint (MaxInflight cfg * 2) = int (2 * n)" using n by simp
    then show ?thesis using n
      by (auto simp: NewExecutor_def make_chan_def q queue_cap_def started_def Option.bind_eq_None_conv nat_mult_distrib
          split: if_splits)
  qed
qed

lemma parsed_log_level:
  "valid_log_level l \<Longrightarrow> parseLogLevel l = LevelInfo \<longleftrightarrow> l = ''info''"
  by (auto simp: valid_log_level_def parseLogLevel_def)

lemma served_parts:
  assumes "run_start lib room flags s = (Serves lvl redisStore exec, s')"
  shows "Parse_config flags = Inr (ex_cfg exec)" "NewExecutor room (ex_cfg exec) = Some exec"
    and "lvl = parseLogLevel (LogLevel (ex_cfg exec))" "namespace redisStore = Namespace (ex_cfg exec)"
    and "RedisStore_Ping redisStore s = (None, s')"
  using assms
  by (auto simp: run_start_def NewRedisStore_def NewExecutor_def Option.bind_eq_Some_conv
      split: sum.splits option.splits prod.splits)

text \<open>C40 A process that serves has limits that allow work: the flags were accepted and Redis has answered,
  the token is not empty, the executor has at least one slot for a call and one place in the queue, and
  each per-domain channel can be made, with the configured capacity, at least one; the logger is
  only at its fallback level when that level was asked for. A start that returns instead returns
  1, and has closed the store if it had opened it.\<close>

theorem startup_serves_or_fails:
  assumes "run_start lib room flags s = (res, s')" "room < 2 ^ 63"
  shows "case res of
      Serves lvl redisStore exec \<Rightarrow>
        (let cfg = ex_cfg exec in
           config_ok cfg \<and> RedisStore_Ping redisStore s = (None, s') \<and> AuthToken cfg \<noteq> []
           \<and> ex_globalSem exec = max_inflight cfg \<and> 0 < ex_globalSem exec
           \<and> ex_jobQueue exec = queue_cap cfg \<and> queue_cap cfg = 2 * max_inflight cfg
           \<and> 0 < ex_jobQueue exec \<and> 16 * ex_jobQueue exec \<le> room
           \<and> make_chan room 0 (MaxPerDomain cfg) = Some (max_per_domain cfg) \<and> 0 < max_per_domain cfg
           \<and> (lvl = LevelInfo \<longleftrightarrow> LogLevel cfg = ''info''))
    | Returns status why closed \<Rightarrow> status = 1 \<and> (closed \<longleftrightarrow> (\<exists>err. why = PingFailed err))
    | StartPanics \<Rightarrow> (\<exists>cfg. Parse_config flags = Inr cfg \<and> room < 32 * max_inflight cfg)"
proof (cases res)
  case (Returns status why closed)
  with assms show ?thesis
    by (auto simp: run_start_def split: sum.splits option.splits prod.splits)
next
  case StartPanics
  with assms(1) obtain cfg where c: "Parse_config flags = Inr cfg" "NewExecutor room cfg = None"
    by (auto simp: run_start_def split: sum.splits option.splits prod.splits)
  then have "Config_Validate cfg = Inr ()" by (auto simp: parsed_config_ok Config_Validate_iff)
  with c executor_room [OF _ assms(2)] StartPanics show ?thesis by auto
next
  case (Serves lvl redisStore exec)
  note p = served_parts [OF assms(1) [unfolded Serves]]
  have ok: "config_ok (ex_cfg exec)" using parsed_config_ok [OF p(1)] .
  then have lim: "0 < sint (MaxInflight (ex_cfg exec))" "0 < sint (MaxPerDomain (ex_cfg exec))"
    "AuthToken (ex_cfg exec) \<noteq> []" "valid_log_level (LogLevel (ex_cfg exec))"
    by (simp_all add: config_ok_def)
  have "Config_Validate (ex_cfg exec) = Inr ()" using ok by (simp add: Config_Validate_iff)
  from executor_room [OF this assms(2)] p(2) have
    "ex_globalSem exec = max_inflight (ex_cfg exec)" "ex_jobQueue exec = queue_cap (ex_cfg exec)"
    "queue_cap (ex_cfg exec) = 2 * max_inflight (ex_cfg exec)" "16 * queue_cap (ex_cfg exec) \<le> room"
    by (auto simp: not_less)
  with Serves ok lim p(3,5) parsed_log_level [OF lim(4)] show ?thesis
    by (simp add: Let_def max_inflight_def max_per_domain_def make_chan_def)
qed

text \<open>A process that serves is the pool in its initial state, unless its ticker panics.\<close>

lemma served_launch:
  assumes "run_start lib room flags s = (Serves lvl redisStore exec, s')" "0 < sint (PollMs (ex_cfg exec) * 1000000)"
  shows "launch room (ex_cfg exec) = Some (started (ex_cfg exec))"
  using served_parts(2) [OF assms(1)] assms(2) by (simp add: launch_def)

text \<open>A go-redis that accepts every URL and gives the reference server.\<close>

definition plain_redis :: "(unit, ref_server) go_redis" where
  "plain_redis = \<lparr>redis_ParseURL = (\<lambda>u. Inr ()), redis_NewClient = (\<lambda>opts. ref_exec)\<rparr>"

lemma plain_start:
  "\<exists>lvl rs exec. run_start plain_redis (2 ^ 47) [RedisUrlFlag ''redis://h:1'', AuthTokenFlag ''t''] ref_init
     = (Serves lvl rs exec, ref_init) \<and> ex_cfg exec = DefaultConfig\<lparr>RedisURL := ''redis://h:1'', AuthToken := ''t''\<rparr>"
proof -
  define cfg where "cfg = DefaultConfig\<lparr>RedisURL := ''redis://h:1'', AuthToken := ''t''\<rparr>"
  have "Parse_config [RedisUrlFlag ''redis://h:1'', AuthTokenFlag ''t''] = Inr cfg"
    using default_config_ok
    by (simp add: Parse_config_def Let_def cfg_def sbind_eq_Inr_iff Config_Validate_iff)
  moreover have "RedisStore_Ping \<lparr>client = ref_exec, namespace = Namespace cfg\<rparr> ref_init = (None, ref_init)"
    by (simp add: RedisStore_Ping_def run_cmds_def ref_exec_def ref_init_def redis_run.simps)
  ultimately show ?thesis
    by (simp add: run_start_def NewRedisStore_def plain_redis_def NewExecutor_def make_chan_def
        flip: cfg_def) (simp add: cfg_def DefaultConfig_def)
qed

theorem startup_serves_or_fails_witness:
  "\<exists>lvl rs exec. run_start plain_redis (2 ^ 47) [RedisUrlFlag ''redis://h:1'', AuthTokenFlag ''t''] ref_init
      = (Serves lvl rs exec, ref_init) \<and> ex_jobQueue exec = 400 \<and> lvl = LevelInfo"
proof -
  obtain lvl rs exec where r: "run_start plain_redis (2 ^ 47) [RedisUrlFlag ''redis://h:1'', AuthTokenFlag ''t''] ref_init
      = (Serves lvl rs exec, ref_init)" "ex_cfg exec = DefaultConfig\<lparr>RedisURL := ''redis://h:1'', AuthToken := ''t''\<rparr>"
    using plain_start by blast
  from startup_serves_or_fails [OF r(1)] r show ?thesis
    by (simp add: Let_def max_inflight_def DefaultConfig_def)
qed

end
