(* ===== verification/Races.thy ===== *)
theory Races
  imports HttpApi
begin

text \<open>
  The API and an execution at work on the same job: a worker has loaded the job and calls its
  webhook while a request changes the store. The code has no lock or version on a job, so the
  outcome handler writes over what the request did.
\<close>

lemmas running_verdict = job_store.running_verdict [OF redis_contract]

text \<open>An outcome that announces a next run has written the job and its schedule entry.\<close>

lemma finish_scheduled:
  assumes "redis_service (client rs) db" "valid_store lib rs (db s)" "Execution.held lib rs (db s) job"
    and "finishJob lib (redis_Store lib rs) inp job result s = (out, s')"
    and "out \<in> {Rescheduled d, RetryScheduled d}"
  shows "(\<exists>j. redis_look lib rs (db s') (ID job) = Inr j \<and> same_config j job \<and> DueAtMs j = d)
    \<and> redis_due rs (db s') (ID job) = Some (score d)"
proof (cases "verdict lib inp job result")
  case Delete
  from finish_delete [OF assms(1) _ _ assms(3,4) this] assms(2,5) show ?thesis by auto
next
  case (Stop j)
  from finish_stop [OF assms(1) _ _ assms(3,4) this] assms(2,5) show ?thesis by auto
next
  case (Reschedule j)
  note f = finish_reschedule [OF assms(1) _ _ assms(3,4) this]
  have d: "DueAtMs j = d" "redis_due rs (db s') (ID job) = Some (score (DueAtMs j))"
    "redis_look lib rs (db s') (ID job) = Inr (merged (present (redis_look lib rs (db s) (ID job))) j)"
    using f assms(2,5) by auto
  have "job_inv j" "same_config j job" using running_verdict(1) [OF assms(1,3) Reschedule] by blast+
  then have "same_config (merged (present (redis_look lib rs (db s) (ID job))) j) job"
    using assms(3) by (intro merged_present_same) (auto simp: running_def)
  with d show ?thesis by simp
qed

text \<open>C20 A deletion during an execution does not last: if DELETE answers 200 for a job that a worker is
  calling, the job and its schedule entry are gone, but when the execution then ends with a next
  run, a recurring job after success or any job to be retried, both are back, with the
  job's configuration, and the job goes on.\<close>

theorem delete_during_call_is_undone:
  assumes "redis_service (client rs) db" "valid_store lib rs (db s)" "Execution.held lib rs (db s) job"
    and "ServeHTTP lib (redis_Store lib rs) cfg env r s = ((resp, lg), s1)" "authorized cfg r"
    and "findHandler r = Handler (DeleteJobRoute (ID job))" "rs_status resp = StatusOK"
    and "finishJob lib (redis_Store lib rs) inp job result s1 = (out, s2)"
    and "out \<in> {Rescheduled d, RetryScheduled d}"
  shows "redis_look lib rs (db s1) (ID job) = Inl ErrJobNotFound \<and> redis_due rs (db s1) (ID job) = None
    \<and> (\<exists>j. redis_look lib rs (db s2) (ID job) = Inr j \<and> same_config j job \<and> DueAtMs j = d)
    \<and> redis_due rs (db s2) (ID job) = Some (score d)"
proof -
  have "handleDeleteJob (redis_Store lib rs) (ID job) r [''Server'' \<mapsto> ServerHeader] s = (resp, s1)"
    using ServeHTTP_mux [OF assms(4,5)] assms(6) by (simp add: mux_handler_def)
  moreover have "ID job \<noteq> []" using findHandler_job_id(2) [OF assms(6)] by simp
  ultimately have d: "handleDeleteJob (redis_Store lib rs) (ID job) r [''Server'' \<mapsto> ServerHeader] s = (resp, s1)"
    "ID job \<noteq> []" by blast+
  have "StatusOK \<noteq> StatusNotFound" "StatusOK \<noteq> StatusInternalServerError" by (simp_all add: status_codes)
  with delete_effect [OF assms(1) _ _ d(2,1)] assms(2,7)
  have gone: "redis_look lib rs (db s1) (ID job) = Inl ErrJobNotFound" "redis_due rs (db s1) (ID job) = None"
    and ok: "valid_store lib rs (db s1)" by metis+
  have "Execution.held lib rs (db s1) job" using assms(3) gone(1) by (simp add: running_def)
  with finish_scheduled [OF assms(1) ok _ assms(8,9)] gone show ?thesis by blast
qed

theorem delete_during_call_is_undone_witness:
  "\<exists>resp lg s1 s2. ServeHTTP plain_lib (redis_Store plain_lib ref_store) sample_api sample_env
      (sample_req ''DELETE'' ''/v1/jobs/j1'' ''bEARER t'') (ref_created sample_job) = ((resp, lg), s1)
    \<and> rs_status resp = 200
    \<and> finishJob plain_lib (redis_Store plain_lib ref_store) sample_input sample_job (Inr 200) s1 = (Rescheduled 1500, s2)
    \<and> redis_due ref_store (rdb s2) ''j1'' = Some (score 1500)"
proof -
  let ?st = "redis_Store plain_lib ref_store" and ?s = "ref_created sample_job"
  have att: "sint (Attempt sample_job) < sint (MaxAttempts sample_job)" by simp
  have look: "redis_look plain_lib ref_store (rdb ?s) ''j1'' = Inr sample_job"
    using ref_created_look [OF sample_job_storable] by simp
  define s1 where "s1 = snd (RedisStore_DeleteJob ref_store ''j1'' ?s)"
  have del: "RedisStore_DeleteJob ref_store ''j1'' ?s = (None, s1)" "faults s1 = []"
    using ref_created(2) [OF sample_job_storable]
    by (simp_all add: s1_def RedisStore_DeleteJob_def ref_run_ok)
  obtain resp lg where run: "ServeHTTP plain_lib ?st sample_api sample_env
      (sample_req ''DELETE'' ''/v1/jobs/j1'' ''bEARER t'') ?s = ((resp, lg), s1)" and ok: "rs_status resp = StatusOK"
    using look ref_get_ok [OF ref_created(2) [OF sample_job_storable], of plain_lib "''j1''"] del(1) sample_authorized
    by (auto simp: ServeHTTP_pass mux_handler_def sample_routes handleDeleteJob_def store_ops)
  have "storable plain_lib (success_job sample_input sample_job)"
    using sample_job_storable by (simp add: storable_def)
  from ref_reschedule_ok [OF this del(2), of Rescheduled] obtain s2 where
    fin: "finishJob plain_lib ?st sample_input sample_job (Inr 200) s1 = (Rescheduled 1500, s2)"
    by (auto simp: finishJob_cases success_recurring_eq)
  from delete_during_call_is_undone [OF ref_service ref_sample(1) ref_sample(2) [OF att] run sample_authorized _ ok fin,
      of 1500] run ok fin
  show ?thesis by (auto simp: sample_routes status_codes)
qed

end
