(* ===== verification/EndToEnd.thy ===== *)
theory EndToEnd
  imports Races
begin

text \<open>
  A job through all the parts, while Redis answers: created by a request, claimed by a poll, loaded
  and called by a worker. Between the three the rest of the process may do anything that leaves this
  job alone.
\<close>

lemma pending_attempts: "job_inv j \<Longrightarrow> Status j = JobStatusPending \<Longrightarrow> sint (Attempt j) < sint (MaxAttempts j)"
  by (auto simp: job_inv_def job_consts)

lemma job_domain: "job_inv j \<Longrightarrow> \<exists>dom. ExtractDomain lib (URL j) = Inr dom"
  by (auto simp: job_inv_def job_config_ok_def url_ok_def ExtractDomain_def split: sum.splits)

context reliable_store
begin

lemma created_works:
  assumes "inv s" "jobs_ok storable (look s)" "create_with st h (Some j) s (resp, s')"
    and "job_inv j" "storable j" "look s (ID j) = Inl ErrJobNotFound"
  shows "rs_status resp = StatusCreated \<and> look s' (ID j) = Inr j \<and> due s' (ID j) = Some (score (DueAtMs j))
    \<and> inv s' \<and> jobs_ok storable (look s') \<and> (\<forall>k. k \<noteq> ID j \<longrightarrow> look s' k = look s k \<and> due s' k = due s k)"
proof -
  obtain e s1 where c: "CreateJob st j s = (e, s1)" by (rule prod.exhaust)
  have "e = None" using create_works [OF assms(1,5) c] .
  with assms(3) c have "rs_status resp = StatusCreated" by (simp add: create_with_def)
  moreover have "StatusCreated \<noteq> StatusInternalServerError" by (simp add: status_codes)
  ultimately show ?thesis using create_with_effect [OF assms] by metis
qed

lemma claimed_when_due:
  assumes "inv s" "poll st cfg (\<lambda>i q. q @ [i]) clock s q = (s', q')" "0 < sint (Batch cfg)"
    and "finite {i. \<exists>d. due s i = Some d \<and> d \<le> score (NowMs clock)}"
    and "card {i. \<exists>d. due s i = Some d \<and> d \<le> score (NowMs clock)} < nat (sint (Batch cfg))"
    and "due s i = Some d" "d \<le> score (NowMs clock)"
  shows "(\<exists>ids. q' = q @ ids \<and> distinct ids \<and> i \<in> set ids) \<and> due s' i = None \<and> look s' i = look s i"
proof -
  from poll_claims_all [OF assms(1-5)] obtain ids where
    ids: "set ids = {i. \<exists>d. due s i = Some d \<and> d \<le> score (NowMs clock)}" "distinct ids" "q' = q @ ids"
      "\<forall>i\<in>set ids. due s' i = None" unfolding fold_snoc by blast
  then have "i \<in> set ids" using assms(6,7) by simp
  moreover have "look s' = look s" using poll_effect [OF assms(1-3)] by blast
  ultimately show ?thesis using ids by auto
qed

lemma executes_as_stored:
  assumes "inv s" "look s (ID j) = Inr j" "job_inv j"
  shows "\<exists>t. executeJob lib st inp (ID j) s = finishJob lib st inp j (doWebhook lib inp j) t
    \<and> inv t \<and> look t = look s \<and> due t = due s"
proof -
  obtain r s1 where g: "GetJob st (ID j) s = (r, s1)" by (rule prod.exhaust)
  obtain dom where "ExtractDomain lib (URL j) = Inr dom" using job_domain [OF assms(3)] by blast
  moreover have "r = Inr j" using get_works [OF assms(1) g] assms(2) by simp
  ultimately show ?thesis using get_frame [OF assms(1) g] g
    by (intro exI [of _ s1]) (simp add: executeJob_def)
qed

end

lemmas created_works = reliable_store.created_works [OF reliable_redis_contract]
lemmas claimed_when_due = reliable_store.claimed_when_due [OF reliable_redis_contract]
lemmas executes_as_stored = reliable_store.executes_as_stored [OF reliable_redis_contract]

text \<open>C1 An accepted job is called. While Redis answers, a creation request that is authorized and accepted
  is answered 201; from any later state with this job as it was stored, a poll at or after
  its due time whose batch is not exhausted claims it, once; and from any later state in
  which it is as it was claimed, the worker that executes it calls exactly the stored webhook, and
  leaves the job deleted after a success if it is one-shot, or stored, and then scheduled or
  failed.\<close>

theorem accepted_job_is_called:
  assumes "redis_service (client rs) db" "\<And>cs s. \<exists>replies. fst (client rs cs s) = Inr replies"
    and "0 < sint (Batch cfg)" "0 < sint (DefaultTimeoutMs cfg)"
    and "valid_store lib rs (db s0)" "ServeHTTP lib (redis_Store lib rs) cfg env r s0 = ((resp, lg), s1)"
    and "authorized cfg r" "created_job lib cfg env r = Some j" "storable lib j"
    and "redis_look lib rs (db s0) (env_uuid env) = Inl ErrJobNotFound"
    and "db_wf (db t1)" "redis_look lib rs (db t1) (ID j) = redis_look lib rs (db s1) (ID j)"
    and "redis_due rs (db t1) (ID j) = redis_due rs (db s1) (ID j)"
    and "poll (redis_Store lib rs) cfg (\<lambda>i q. q @ [i]) clock t1 q = (t2, q')"
    and "score (DueAtMs j) \<le> score (NowMs clock)"
    and "card {i. \<exists>d. redis_due rs (db t1) i = Some d \<and> d \<le> score (NowMs clock)} < nat (sint (Batch cfg))"
    and "valid_store lib rs (db t3)" "redis_look lib rs (db t3) (ID j) = redis_look lib rs (db t2) (ID j)"
    and "executeJob lib (redis_Store lib rs) inp (ID j) t3 = (out, t4)"
  shows "rs_status resp = StatusCreated
    \<and> (\<exists>ids. q' = q @ ids \<and> distinct ids \<and> ID j \<in> set ids) \<and> redis_due rs (db t2) (ID j) = None
    \<and> (\<exists>t. (out, t4) = finishJob lib (redis_Store lib rs) inp j (doWebhook lib inp j) t
          \<and> redis_look lib rs (db t) = redis_look lib rs (db t3))
    \<and> (redis_look lib rs (db t4) (ID j) = Inl ErrJobNotFound \<and> out = OneShotDeleted
       \<or> (\<exists>k. redis_look lib rs (db t4) (ID j) = Inr k \<and> same_config k j
           \<and> (Status k = JobStatusPending \<and> redis_due rs (db t4) (ID j) = Some (score (DueAtMs k))
              \<or> Status k = JobStatusFailed)))"
proof -
  note rel = reliable_redisI [OF assms(1,2)] and cj = created_job_inv [OF assms(4,8)]
  have "create_with (redis_Store lib rs) [''Server'' \<mapsto> ServerHeader] (created_job lib cfg env r) s0 (resp, s1)"
    using ServeHTTP_mux [OF assms(6,7)] assms(8)
      create_handlers [of "redis_Store lib rs" "[''Server'' \<mapsto> ServerHeader]" lib cfg env r s0]
    by (auto simp: mux_handler_def created_job_def split: mux_result.splits route.splits)
  note c = this [unfolded assms(8)]
  have fresh: "redis_look lib rs (db s0) (ID j) = Inl ErrJobNotFound" using cj assms(10) by simp
  have made: "rs_status resp = StatusCreated" "redis_look lib rs (db s1) (ID j) = Inr j"
    "redis_due rs (db s1) (ID j) = Some (score (DueAtMs j))"
    using created_works [OF rel _ _ c _ assms(9) fresh] cj assms(5) by blast+
  have due: "redis_due rs (db t1) (ID j) = Some (score (DueAtMs j))" using assms(13) made(3) by simp
  note cl = claimed_when_due [OF rel assms(11,14,3) reliable_redis.finite_due [OF rel] assms(16) due assms(15)]
  have look: "redis_look lib rs (db t3) (ID j) = Inr j" using assms(12,18) cl made(2) by simp
  have wf: "db_wf (db t3)" "jobs_ok (storable lib) (redis_look lib rs (db t3))" using assms(17) by simp_all
  have "job_inv j" "sint (Attempt j) < sint (MaxAttempts j)" using cj pending_attempts by simp_all
  with executes_as_stored [OF rel wf(1) look, of lib inp] assms(19)
    reliable_redis.execute_kept [OF rel wf look _ assms(19)] made(1) cl
  show ?thesis by metis
qed

lemma empty_views: "redis_look lib rs empty_db i = Inl ErrJobNotFound" "redis_due rs empty_db i = None"
  by (simp_all add: redis_look_def redis_due_def empty_db_def zscore_def)

lemma empty_valid: "valid_store lib rs empty_db"
  by (simp add: jobs_ok_def empty_views)

text \<open>A second after the sample job is due.\<close>

definition next_second :: go_time where
  "next_second = \<lparr>t_unix = 1700000001, t_nsec = 0\<rparr>"

lemma sample_new_fields [simp]: "ID sample_new = ''j9''" "Type sample_new = JobTypeOneShot"
  by (simp_all add: sample_new_def)

lemma sample_new_due: "score (DueAtMs sample_new) \<le> score (NowMs next_second)"
  by (simp add: sample_new_def next_second_def NowMs_def UnixMilli_def sample_one_shot_def score_exact)

theorem accepted_job_is_called_witness:
  "\<exists>resp lg s1 t2 q' out t4.
     ServeHTTP plain_lib (redis_Store plain_lib calm_store) sample_api sample_env
       (sample_req ''POST'' ''/v1/jobs/one-shot'' ''bEARER t'') empty_db = ((resp, lg), s1)
     \<and> poll (redis_Store plain_lib calm_store) sample_api (\<lambda>i q. q @ [i]) next_second s1 [] = (t2, q')
     \<and> executeJob plain_lib (redis_Store plain_lib calm_store) sample_input ''j9'' t2 = (out, t4)
     \<and> rs_status resp = 201 \<and> ''j9'' \<in> set q'"
proof -
  let ?st = "redis_Store plain_lib calm_store" and ?r = "sample_req ''POST'' ''/v1/jobs/one-shot'' ''bEARER t''"
  obtain resp lg s1 where run: "ServeHTTP plain_lib ?st sample_api sample_env ?r empty_db = ((resp, lg), s1)"
    by (metis prod.exhaust)
  obtain t2 q' where poll: "poll ?st sample_api (\<lambda>i q. q @ [i]) next_second s1 [] = (t2, q')"
    by (rule prod.exhaust)
  obtain out t4 where exec: "executeJob plain_lib ?st sample_input ''j9'' t2 = (out, t4)"
    by (rule prod.exhaust)
  have "create_with ?st [''Server'' \<mapsto> ServerHeader] (Some sample_new) empty_db (resp, s1)"
    using ServeHTTP_mux [OF run sample_authorized] create_handlers(1) [of ?st "[''Server'' \<mapsto> ServerHeader]"
        plain_lib sample_api sample_env ?r empty_db] sample_created [of "''bEARER t''"]
    by (simp add: mux_handler_def sample_routes created_job_def)
  note c = this and rel = reliable_redisI [OF calm_service calm_answers]
  have inv: "job_inv sample_new" using created_job_inv [OF _ sample_created] by simp
  have empty: "db_wf empty_db" "jobs_ok (storable plain_lib) (redis_look plain_lib calm_store empty_db)"
    using empty_valid by simp_all
  have fresh: "redis_look plain_lib calm_store empty_db (ID sample_new) = Inl ErrJobNotFound"
    by (simp add: empty_views)
  note made = created_works [OF rel empty c inv sample_new_storable fresh]
  have batch: "sint (Batch sample_api) = 200" by (simp add: sample_api_def DefaultConfig_def)
  have "redis_due calm_store s1 k = None" if "k \<noteq> ''j9''" for k
    using made that by (simp add: empty_views)
  then have sub: "{i. \<exists>d. redis_due calm_store s1 i = Some d \<and> d \<le> score (NowMs next_second)} \<subseteq> {''j9''}"
    by force
  have "card {i. \<exists>d. redis_due calm_store s1 i = Some d \<and> d \<le> score (NowMs next_second)} \<le> 1"
    using card_mono [OF _ sub] by simp
  then have card: "card {i. \<exists>d. redis_due calm_store s1 i = Some d \<and> d \<le> score (NowMs next_second)}
      < nat (sint (Batch sample_api))" by (simp add: batch)
  have s1: "db_wf s1" "jobs_ok (storable plain_lib) (redis_look plain_lib calm_store s1)" using made by simp_all
  have t2: "valid_store plain_lib calm_store t2"
    using poll_effect [OF calm_service s1(1) poll] s1(2) batch by simp
  have exec': "executeJob plain_lib ?st sample_input (ID sample_new) t2 = (out, t4)" using exec by simp
  from accepted_job_is_called [OF calm_service calm_answers _ _ empty_valid run sample_authorized sample_created
      sample_new_storable _ s1(1) refl refl poll sample_new_due card t2 refl exec'] batch run poll exec
  show ?thesis by (auto simp: empty_views status_codes)
qed

end
