(* ===== verification/Spec2Isabelle.thy ===== *)
theory Spec2Isabelle
  imports TickMain EndToEnd
begin

text \<open>
  TickHook, a webhook scheduler over Redis (Go, \<open>src/cmd\<close> and \<open>src/internal\<close>).

  The program. A client creates jobs over HTTP; a job is a webhook to call at a time, once or
  periodically. The API (\<open>internal/httpapi\<close>) validates the request, builds the job
  (\<open>internal/model\<close>) and writes it to Redis (\<open>internal/store\<close>): a hash with the job's fields and an
  entry in a sorted set, scored by the due time. The scheduler (\<open>internal/scheduler\<close>) polls
  the sorted set, takes each due job off it and hands its id to the executor
  (\<open>internal/executor\<close>), whose workers load the job, call the webhook under a global and a
  per-domain limit, and delete, reschedule or fail the job. \<open>cmd/tickhook/main.go\<close> starts and
  stops the parts.

  Theories, in the order of the imports.
  \<^item> \<open>TickPrelude\<close>: 64-bit integers, sums as errors, association lists; \<open>GoLib\<close> and \<open>GoUrl\<close>: what
    the program uses of Go's standard library (decimal conversion, float64 on integers,
    times, \<open>net/url\<close>); \<open>GoJson\<close> and \<open>JsonMap\<close>: \<open>encoding/json\<close> on strings and on header maps.
  \<^item> \<open>TickUtil\<close> is \<open>internal/util/util.go\<close>, \<open>TickJob\<close> is \<open>internal/model/job.go\<close>, \<open>TickConfig\<close> is
    \<open>internal/config/config.go\<close>; constants, types and functions keep their names, a method \<open>T.m\<close>
    is \<open>T_m\<close>.
  \<^item> \<open>TickStore\<close> is the interface \<open>store.Store\<close>, a record of functions, and the locale \<open>job_store\<close> is
    what its clients rely on. \<open>RedisStore\<close> is \<open>internal/store/redis.go\<close> over commands of a Redis
    service, with \<open>serializeJob\<close> and \<open>deserializeJob\<close> field by field; it meets the locale for
    every service that executes a transaction wholly or not at all (\<open>redis_service\<close>).
  \<^item> \<open>Executor\<close> is the execution of one job (\<open>doWebhook\<close>, the three outcome handlers) and \<open>Execution\<close>
    what it means for the stored jobs. \<open>Scheduler\<close> is \<open>poll\<close> and the loop of \<open>Start\<close>.
    \<open>ReliableStore\<close> adds what holds while Redis answers.
  \<^item> \<open>HttpServer\<close> is the routing of \<open>http.ServeMux\<close> on the patterns of \<open>registerRoutes\<close>; \<open>HttpApi\<close> is
    \<open>handlers.go\<close>, \<open>middleware.go\<close> and the chain that \<open>NewServer\<close> builds. \<open>Races\<close> is a request and
    an execution at work on one job, \<open>EndToEnd\<close> a job from its request to its call.
  \<^item> \<open>WorkerPool\<close> is the process as a transition system: workers, queue and semaphores of
    \<open>executor.go\<close>, the scheduler's goroutine and the shutdown sequence of \<open>run\<close>. Its state is the
    record \<open>pool\<close>; a step is one goroutine between two points where another may run. The initial
    state is \<open>started\<close>; \<open>launch\<close> says with which configurations the process gets there, since
    \<open>NewExecutor\<close> (the channels, with the 64-bit product for the queue) and the scheduler's ticker
    can panic. The safety properties hold from \<open>started\<close> on for every configuration; those that
    say that a run exists assume the launch.
    \<open>PoolSafety\<close> has its invariants, \<open>Shutdown\<close> the runs in which shutdown hangs or drops
    jobs and the measure by which it ends, \<open>Lifecycle\<close> the abstract life cycle it refines.
  \<^item> \<open>TickMain\<close> is the start of \<open>run\<close>, with \<open>NewRedisStore\<close>: the flags, the store, its ping and the executor
    (\<open>served_launch\<close> leads on to \<open>WorkerPool\<close>).

  Interfaces. \<open>job_store\<close> is proved once for \<open>RedisStore\<close> (a sublocale of \<open>redis_store\<close>), and the
  lemmas on executions, polls and handlers are proved inside it, over two views of the store:
  what reading a job gives (\<open>redis_look\<close>) and under which score it is scheduled (\<open>redis_due\<close>).
  \<open>reliable_store\<close> extends it. \<open>pool_stable\<close> and \<open>pool_invariant\<close> turn preservation by one step into a
  fact about every run; they are interpreted on the semaphores, the places of a job, the order
  of the shutdown, and the deadlock. \<open>pool_refinement\<close> does the same for simulations.

  What is shown: see the blocks with a claim number. In short: validation accepts what it should
  and jobs built from accepted requests are well formed; the codec round trips; each store
  operation has its effect or none; an execution moves a job as documented, retries are
  bounded, and nothing is lost while Redis answers; a poll claims due jobs once and in order; no
  request without the token has an effect; limits hold under every interleaving; and
  the defects found, each as a theorem about the code as it is.

  Environment. A clock reading, a random number, a new UUID, the iteration order of a map, the
  answer of the HTTP client and the branch a select takes are arguments, so properties hold for
  all of them. A failing call may have had its whole effect or none. Contexts only make calls
  fail. The record \<open>golib\<close> holds what Go leaves open or what is not computed here: Unicode
  case tables, quoting in error texts, out-of-range float conversion, and the JSON codec of
  bodies, of which a property that needs it assumes that the job's body survives it
  (\<open>storable\<close>, which for headers asks for UTF-8 only: \<open>headers_roundtrip\<close>). \<open>decode_one_shot\<close> and \<open>decode_recurring\<close> stand for \<open>encoding/json\<close> on bodies.
  \<open>plain_lib\<close>, \<open>ref_exec\<close> and \<open>plain_redis\<close> are concrete instances, on which the witnesses run.

  Termination. The functions are total; no fuel is used. The JSON parser recurses on shorter texts, with
  Go's limit of 10000 levels of nesting. The scheduler's loop recurses over the list
  of events its select sees. A run of the pool is a list of actions; \<open>drain_measure\<close> bounds how many
  the process can make once the scheduler has exited.

  Not modelled. Logging, \<open>PrintStartup\<close> and \<open>Usage\<close> only print. The flag package splits the command
  line. \<open>Start\<close> and \<open>Shutdown\<close> of the server call \<open>net/http\<close>, whose timeouts are not modelled;
  neither is \<open>Close\<close>, nor the 5 and 30 second deadlines in main. In \<open>WorkerPool\<close> the store is
  the set of scheduled ids (what an execution does to the job is \<open>Executor\<close>), UUIDs are
  fresh; memory is not modelled beyond the room for a channel's buffer. The
  Go tests and \<open>src/scripts/benchmark.py\<close> are not part of the program.
\<close>

end
